theory Spec2Isabelle
  imports Main "HOL-Library.Word" "HOL-Library.Log_Nat"
begin

section \<open>Strings and numbers of the host language\<close>

text \<open>
  A JavaScript string is modelled as a \<open>string\<close>: the list of the bytes of its UTF-8
  encoding. ASCII text is one \<open>char\<close> per character; the Chinese literals of
  \<^verbatim>\<open>server.mjs\<close> are written out as their bytes. Integers (sequence numbers, times in
  milliseconds, the unix clock) are \<open>int\<close>; the host represents them exactly up to
  \<open>2 ^ 53\<close>.
\<close>

definition dq :: string where
  "dq = [CHR 0x22]"

definition sq :: string where
  "sq = [CHR 0x27]"

definition nl :: string where
  "nl = [CHR 0x0A]"

definition digit :: "nat \<Rightarrow> char" where
  "digit d = ''0123456789'' ! d"

text \<open>
  \<^verbatim>\<open>Number.prototype.toString()\<close> on an integer below \<open>2 ^ 53\<close> (a sequence number, a
  margin, the unix clock): its decimal digits, most significant first.
\<close>

function decimal :: "nat \<Rightarrow> string" where
  "decimal n = (if n < 10 then [digit n] else decimal (n div 10) @ [digit (n mod 10)])"
  by pat_completeness auto

termination
  by (relation "measure id") auto

definition toString :: "int \<Rightarrow> string" where
  "toString i = (if i < 0 then CHR ''-'' # decimal (nat (- i)) else decimal (nat i))"

text \<open>\<^verbatim>\<open>s.padStart(n, c)\<close> with a one-character pad string.\<close>

definition padStart :: "nat \<Rightarrow> char \<Rightarrow> string \<Rightarrow> string" where
  "padStart n c s = replicate (n - length s) c @ s"

text \<open>The remainder operator \<^verbatim>\<open>%\<close> on integers: the sign follows the dividend.\<close>

definition js_rem :: "int \<Rightarrow> int \<Rightarrow> int" where
  "js_rem a b = sgn a * (\<bar>a\<bar> mod \<bar>b\<bar>)"

text \<open>
  \<^verbatim>\<open>Math.floor(a / b)\<close> for integers \<open>a\<close> and \<open>b > 0\<close>: the quotient is rounded
  towards minus infinity, for the unix clock, which stays far below \<open>2 ^ 53\<close>: there the
  rounding of the quotient to double precision makes no difference (lemma
  \<open>floor_fl_div\<close> below).
\<close>

definition floor_div :: "int \<Rightarrow> int \<Rightarrow> int" where
  "floor_div a b = \<lfloor>(of_int a :: rat) / of_int b\<rfloor>"

section \<open>Double-precision arithmetic\<close>

text \<open>
  The duration and the per-line slice are JavaScript numbers: IEEE 754 binary64 values,
  and every product and quotient is rounded to the nearest such value, ties to the even
  significand. A finite number is modelled by the rational it denotes and \<open>fl\<close> is that
  rounding to 53 significant bits. The exponent range is not bounded here, so \<open>fl\<close> is
  the binary64 rounding for magnitudes in the normal range (from \<open>2 powi (- 1022)\<close> up to
  \<open>2 ^ 1024\<close>); infinities and NaN are outside the model.
\<close>

definition round_even :: "rat \<Rightarrow> int" where
  "round_even x =
     (let f = \<lfloor>x\<rfloor>; r = x - of_int f
      in if r < 1 / 2 then f else if 1 / 2 < r then f + 1 else if even f then f else f + 1)"

text \<open>The binary exponent \<open>\<lfloor>log\<^sub>2 x\<rfloor>\<close> of a positive rational, from the bit lengths of its numerator and denominator.\<close>

definition ilog2 :: "rat \<Rightarrow> int" where
  "ilog2 x =
     (let (p, q) = quotient_of x;
          d = int (floorlog 2 (nat p)) - int (floorlog 2 (nat q))
      in if 2 powi d \<le> x then d else d - 1)"

definition fl :: "rat \<Rightarrow> rat" where
  "fl x =
     (if x = 0 then 0
      else let e = ilog2 \<bar>x\<bar> - 52
           in sgn x * of_int (round_even (\<bar>x\<bar> / 2 powi e)) * 2 powi e)"

text \<open>
  \<^verbatim>\<open>Math.floor(a / b)\<close> as the host computes it: the quotient of two numbers is rounded to
  double precision before the floor is taken.
\<close>

definition floor_quotient :: "int \<Rightarrow> int \<Rightarrow> int" where
  "floor_quotient a b = \<lfloor>fl (of_int a / of_int b)\<rfloor>"

text \<open>
  \<^verbatim>\<open>Number.prototype.toString()\<close> on an integer-valued number \<open>x\<close>. Below \<open>2 ^ 53\<close> it is
  the decimal numeral of \<open>x\<close>. From there on the host prints the shortest digit string \<open>s\<close>
  (\<open>k\<close> digits) with a decimal exponent \<open>n\<close> such that \<open>s * 10 ^ (n - k)\<close> still rounds to
  \<open>x\<close>, taking the \<open>s\<close> closest to \<open>x\<close> and of two equally close ones the even one. It is
  followed by \<open>n - k\<close> zeros when \<open>n \<le> 21\<close>, and written in exponent notation
  (\<^verbatim>\<open>1.1805916207174113e+21\<close>) otherwise. The closest \<open>s\<close> for given \<open>k\<close> and \<open>n\<close> is the
  quotient of \<open>x\<close> by \<open>10 ^ (n - k)\<close> or its successor, and \<open>n\<close> is the number of digits of
  \<open>x\<close> or one more; seventeen digits always suffice.
\<close>

definition rounds_to :: "nat \<Rightarrow> nat \<Rightarrow> nat \<times> nat \<Rightarrow> bool" where
  "rounds_to x k c =
     (case c of (s, n) \<Rightarrow>
        k \<le> n \<and> 10 ^ (k - 1) \<le> s \<and> s < 10 ^ k \<and>
        fl (of_nat (s * 10 ^ (n - k))) = of_nat x)"

definition digit_candidates :: "nat \<Rightarrow> nat \<Rightarrow> (nat \<times> nat) list" where
  "digit_candidates x k =
     (let d = length (decimal x)
      in filter (rounds_to x k)
           [(x div 10 ^ (d - k), d), (x div 10 ^ (d - k) + 1, d),
            (x div 10 ^ (d + 1 - k), d + 1), (x div 10 ^ (d + 1 - k) + 1, d + 1)])"

definition distance :: "nat \<Rightarrow> nat \<Rightarrow> nat \<times> nat \<Rightarrow> int" where
  "distance x k c = (case c of (s, n) \<Rightarrow> \<bar>int (s * 10 ^ (n - k)) - int x\<bar>)"

fun closest_digits :: "nat \<Rightarrow> nat \<Rightarrow> (nat \<times> nat) list \<Rightarrow> (nat \<times> nat) option" where
  "closest_digits x k [] = None"
| "closest_digits x k (c # cs) =
     (case closest_digits x k cs of
        None \<Rightarrow> Some c
      | Some b \<Rightarrow>
          if distance x k c < distance x k b then Some c
          else if distance x k c = distance x k b \<and> even (fst c) \<and> odd (fst b) then Some c
          else Some b)"

fun shortest_digits :: "nat \<Rightarrow> nat list \<Rightarrow> nat \<times> nat \<times> nat" where
  "shortest_digits x [] = (x, length (decimal x), length (decimal x))"
| "shortest_digits x (k # ks) =
     (case closest_digits x k (digit_candidates x k) of
        Some (s, n) \<Rightarrow> (s, n, k)
      | None \<Rightarrow> shortest_digits x ks)"

definition number_toString_nat :: "nat \<Rightarrow> string" where
  "number_toString_nat x =
     (if x < 2 ^ 53 then decimal x
      else case shortest_digits x [1 ..< 18] of
             (s, n, k) \<Rightarrow>
               if n \<le> 21 then decimal s @ replicate (n - k) (CHR ''0'')
               else if k = 1 then decimal s @ ''e+'' @ decimal (n - 1)
               else take 1 (decimal s) @ ''.'' @ drop 1 (decimal s) @ ''e+'' @ decimal (n - 1))"

definition number_toString :: "int \<Rightarrow> string" where
  "number_toString i =
     (if i < 0 then CHR ''-'' # number_toString_nat (nat (- i)) else number_toString_nat (nat i))"

section \<open>Time codec\<close>

text \<open>
  \<^verbatim>\<open>
  function msToSrtTime(ms) {
    if (ms < 0) ms = 0
    const hours = Math.floor(ms / 3600000)
    const minutes = Math.floor((ms % 3600000) / 60000)
    const seconds = Math.floor((ms % 60000) / 1000)
    const milliseconds = ms % 1000
    return `${hours.toString().padStart(2, '0')}:${minutes.toString().padStart(2, '0')}:` +
           `${seconds.toString().padStart(2, '0')},${milliseconds.toString().padStart(3, '0')}`
  }
  \<close>
\<close>

text \<open>
  \<open>ms\<close> is an integer the host can hold (an integer that is a double); the remainders
  are exact, the three quotients are rounded before \<^verbatim>\<open>Math.floor\<close>, and the four fields
  are printed by \<^verbatim>\<open>toString\<close> on numbers.
\<close>

definition msToSrtTime :: "int \<Rightarrow> string" where
  "msToSrtTime ms0 =
     (let ms = (if ms0 < 0 then 0 else ms0);
          hours = floor_quotient ms 3600000;
          minutes = floor_quotient (js_rem ms 3600000) 60000;
          seconds = floor_quotient (js_rem ms 60000) 1000;
          milliseconds = js_rem ms 1000
      in padStart 2 (CHR ''0'') (number_toString hours) @ '':'' @
         padStart 2 (CHR ''0'') (number_toString minutes) @ '':'' @
         padStart 2 (CHR ''0'') (number_toString seconds) @ '','' @
         padStart 3 (CHR ''0'') (number_toString milliseconds))"

text \<open>The decomposition in the words of the specification, by floor division and modulus.\<close>

definition spec_timestamp :: "int \<Rightarrow> string" where
  "spec_timestamp ms =
     (let t = max 0 ms
      in padStart 2 (CHR ''0'') (decimal (nat (t div 3600000))) @ '':'' @
         padStart 2 (CHR ''0'') (decimal (nat (t mod 3600000 div 60000))) @ '':'' @
         padStart 2 (CHR ''0'') (decimal (nat (t mod 60000 div 1000))) @ '','' @
         padStart 3 (CHR ''0'') (decimal (nat (t mod 1000))))"

section \<open>Trimming and splitting\<close>

text \<open>
  \<^verbatim>\<open>String.prototype.trim\<close> removes white space and line terminators from both ends:
  TAB, LF, VT, FF, CR, SP, U+00A0, U+1680, U+2000 .. U+200A, U+2028, U+2029, U+202F,
  U+205F, U+3000 and U+FEFF, each given here by its UTF-8 bytes.
\<close>

definition white_space :: "string list" where
  "white_space =
     [[CHR 0x09], [CHR 0x0A], [CHR 0x0B], [CHR 0x0C], [CHR 0x0D], [CHR 0x20],
      [CHR 0xC2, CHR 0xA0], [CHR 0xE1, CHR 0x9A, CHR 0x80],
      [CHR 0xE2, CHR 0x80, CHR 0x80], [CHR 0xE2, CHR 0x80, CHR 0x81],
      [CHR 0xE2, CHR 0x80, CHR 0x82], [CHR 0xE2, CHR 0x80, CHR 0x83],
      [CHR 0xE2, CHR 0x80, CHR 0x84], [CHR 0xE2, CHR 0x80, CHR 0x85],
      [CHR 0xE2, CHR 0x80, CHR 0x86], [CHR 0xE2, CHR 0x80, CHR 0x87],
      [CHR 0xE2, CHR 0x80, CHR 0x88], [CHR 0xE2, CHR 0x80, CHR 0x89],
      [CHR 0xE2, CHR 0x80, CHR 0x8A], [CHR 0xE2, CHR 0x80, CHR 0xA8],
      [CHR 0xE2, CHR 0x80, CHR 0xA9], [CHR 0xE2, CHR 0x80, CHR 0xAF],
      [CHR 0xE2, CHR 0x81, CHR 0x9F], [CHR 0xE3, CHR 0x80, CHR 0x80],
      [CHR 0xEF, CHR 0xBB, CHR 0xBF]]"

definition startsWith :: "string \<Rightarrow> string \<Rightarrow> bool" where
  "startsWith p s = (take (length p) s = p)"

text \<open>Dropping, from the front, every leading member of a table of non-empty sequences.\<close>

function strip_front :: "string list \<Rightarrow> string \<Rightarrow> string" where
  "strip_front ws s =
     (case find (\<lambda>w. w \<noteq> [] \<and> startsWith w s) ws of
        None \<Rightarrow> s
      | Some w \<Rightarrow> strip_front ws (drop (length w) s))"
  by pat_completeness auto

termination
proof (relation "measure (\<lambda>(ws, s). length s)")
  show "wf (measure (\<lambda>(ws, s). length s))" by simp
next
  fix ws :: "string list" and s w :: string
  assume "find (\<lambda>w. w \<noteq> [] \<and> startsWith w s) ws = Some w"
  then have "w \<noteq> []" and "startsWith w s"
    by (auto simp: find_Some_iff)
  then have "s \<noteq> []" and "0 < length w"
    by (auto simp: startsWith_def)
  then show "((ws, drop (length w) s), (ws, s)) \<in> measure (\<lambda>(ws, s). length s)"
    by simp
qed

declare strip_front.simps [simp del]

definition trimStart :: "string \<Rightarrow> string" where
  "trimStart s = strip_front white_space s"

definition trimEnd :: "string \<Rightarrow> string" where
  "trimEnd s = rev (strip_front (map rev white_space) (rev s))"

definition trim :: "string \<Rightarrow> string" where
  "trim s = trimEnd (trimStart s)"

text \<open>\<^verbatim>\<open>s.split('\n')\<close>: the pieces between line feeds; the empty string gives one empty piece.\<close>

fun split_nl :: "string \<Rightarrow> string list" where
  "split_nl [] = [[]]"
| "split_nl (c # cs) =
     (if c = CHR 0x0A then [] # split_nl cs
      else (case split_nl cs of [] \<Rightarrow> [[c]] | l # ls \<Rightarrow> (c # l) # ls))"

section \<open>Subtitle serializer\<close>

text \<open>
  \<^verbatim>\<open>
  function generateSRT(utterances) {
    let srtContent = ''
    let index = 1
    for (const utterance of utterances) {
      const startTime = msToSrtTime(utterance.start_time)
      const endTime = msToSrtTime(utterance.end_time)
      const text = utterance.text.trim()
      if (text) {
        srtContent += `${index}\n`
        srtContent += `${startTime} --> ${endTime}\n`
        srtContent += `${text}\n\n`
        index++
      }
    }
    return srtContent
  }
  \<close>
  The loop carries the pair \<open>(srtContent, index)\<close>; the field \<^verbatim>\<open>text\<close> is \<open>utt_text\<close> here.
\<close>

record utterance =
  start_time :: int
  end_time :: int
  utt_text :: string

fun srt_loop :: "utterance list \<Rightarrow> string \<times> int \<Rightarrow> string \<times> int" where
  "srt_loop [] st = st"
| "srt_loop (u # us) (srtContent, index) =
     (let startTime = msToSrtTime (start_time u);
          endTime = msToSrtTime (end_time u);
          t = trim (utt_text u)
      in if t \<noteq> []
         then srt_loop us
                (srtContent @ (toString index @ nl)
                            @ (startTime @ '' --> '' @ endTime @ nl)
                            @ (t @ nl @ nl),
                 index + 1)
         else srt_loop us (srtContent, index))"

definition generateSRT :: "utterance list \<Rightarrow> string" where
  "generateSRT utterances = fst (srt_loop utterances ([], 1))"

text \<open>
  The serializer in the words of the specification: the utterances with non-empty trimmed
  text, numbered 1, 2, 3, ... in order, one block each.
\<close>

definition srt_block :: "nat \<Rightarrow> utterance \<Rightarrow> string" where
  "srt_block k u =
     decimal k @ nl @
     msToSrtTime (start_time u) @ '' --> '' @ msToSrtTime (end_time u) @ nl @
     trim (utt_text u) @ nl @ nl"

definition spec_serialize :: "utterance list \<Rightarrow> string" where
  "spec_serialize us =
     (let kept = filter (\<lambda>u. trim (utt_text u) \<noteq> []) us
      in concat (map (\<lambda>(k, u). srt_block k u) (zip [1 ..< Suc (length kept)] kept)))"

section \<open>Style translator\<close>

text \<open>
  \<^verbatim>\<open>String.prototype.toUpperCase\<close> on ASCII letters; bytes outside \<open>a .. z\<close> are left
  as they are (the case mapping of non-ASCII letters is not modelled).
\<close>

definition upper_char :: "char \<Rightarrow> char" where
  "upper_char c =
     (let n = (of_char c :: nat) in if 97 \<le> n \<and> n \<le> 122 then char_of (n - 32) else c)"

definition toUpperCase :: "string \<Rightarrow> string" where
  "toUpperCase s = map upper_char s"

text \<open>\<^verbatim>\<open>s.substring(a, b)\<close>: the characters from \<open>min a b\<close> up to \<open>max a b\<close>, clipped to \<open>s\<close>.\<close>

definition substring :: "nat \<Rightarrow> nat \<Rightarrow> string \<Rightarrow> string" where
  "substring a b s = take (max a b - min a b) (drop (min a b) s)"

text \<open>
  \<^verbatim>\<open>
  function cssToAssColor(cssColor) {
    if (cssColor.startsWith('&H')) return cssColor
    const hex = cssColor.replace('#', '')
    const r = hex.substring(0, 2)
    const g = hex.substring(2, 4)
    const b = hex.substring(4, 6)
    return `&H00${b}${g}${r}`.toUpperCase()
  }
  \<close>
  \<^verbatim>\<open>replace\<close> with a string pattern removes the first \<open>#\<close> only, wherever it is.
  Positions count bytes, which are the characters of ASCII text such as a colour code.
\<close>

definition cssToAssColor :: "string \<Rightarrow> string" where
  "cssToAssColor cssColor =
     (if startsWith ''&H'' cssColor then cssColor
      else let hex = remove1 (CHR ''#'') cssColor;
               r = substring 0 2 hex;
               g = substring 2 4 hex;
               b = substring 4 6 hex
           in toUpperCase (''&H00'' @ b @ g @ r))"

section \<open>Cue allocator\<close>

text \<open>
  The uniform fallback of \<^verbatim>\<open>/api/align-subtitle\<close>:
  \<^verbatim>\<open>
    const avgDuration = durationMs / lines.length
    const utterances = lines.map((text, index) => ({
      start_time: Math.floor(index * avgDuration),
      end_time: Math.floor((index + 1) * avgDuration),
      text: text.trim()
    }))
  \<close>
  \<open>index\<close> and \<open>index + 1\<close> are small integers and exact; the quotient and the two
  products are rounded.
\<close>

definition uniform_cues :: "rat \<Rightarrow> string list \<Rightarrow> utterance list" where
  "uniform_cues durationMs lines =
     (let avgDuration = fl (durationMs / of_nat (length lines))
      in map (\<lambda>(index, line).
                \<lparr>start_time = \<lfloor>fl (of_nat index * avgDuration)\<rfloor>,
                 end_time = \<lfloor>fl (of_nat (index + 1) * avgDuration)\<rfloor>,
                 utt_text = trim line\<rparr>)
             (zip [0 ..< length lines] lines))"

section \<open>Host functions\<close>

text \<open>
  Node's \<^verbatim>\<open>path\<close> module, \<^verbatim>\<open>encodeURIComponent\<close> and \<^verbatim>\<open>parseFloat\<close> are library
  functions, not code of this repository: they are parameters of the model, together
  with the directory \<^verbatim>\<open>__dirname\<close> of the server. \<^verbatim>\<open>parseFloat\<close> is taken to return a
  finite number.
\<close>

record host =
  dirname :: string
  path_join :: "string list \<Rightarrow> string"
  path_basename :: "string \<Rightarrow> string \<Rightarrow> string"
  path_extname :: "string \<Rightarrow> string"
  encodeURIComponent :: "string \<Rightarrow> string"
  parseFloat :: "string \<Rightarrow> rat"

text \<open>
  A request field that may be absent is a \<open>string option\<close>. \<^verbatim>\<open>x || d\<close> and the
  conditions \<^verbatim>\<open>x ? .. : ..\<close>, \<^verbatim>\<open>a && x\<close> test truthiness: a string is
  truthy when it is present and not empty.
\<close>

definition truthy :: "string option \<Rightarrow> bool" where
  "truthy x = (case x of None \<Rightarrow> False | Some s \<Rightarrow> s \<noteq> [])"

definition or_else :: "string option \<Rightarrow> string \<Rightarrow> string" where
  "or_else x d = (case x of None \<Rightarrow> d | Some s \<Rightarrow> if s \<noteq> [] then s else d)"

text \<open>What a handler does to the outside world, in order, and what it answers.\<close>

datatype effect = Exec string | WriteFile string string

datatype body =
    ErrorBody string
  | AlignOk string rat nat
  | VideoOk string string string

record response =
  status :: nat
  body :: body

section \<open>The alignment operation\<close>

text \<open>
  The handler of \<^verbatim>\<open>POST /api/align-subtitle\<close> (lines 307 to 352). The world answers
  \<^verbatim>\<open>fs.existsSync\<close>, runs a command (\<open>Inl\<close> the message of the exception it throws,
  \<open>Inr\<close> its output) and writes a file (\<open>Some\<close> the message of the exception, \<open>None\<close>
  on success). An exception inside \<^verbatim>\<open>try\<close> is answered with status 500 and its
  message; \<^verbatim>\<open>res.json\<close> without a status answers 200. The handler returns its answer
  and the commands run and files written, in order.
\<close>

record world =
  existsSync :: "string \<Rightarrow> bool"
  execSync :: "string \<Rightarrow> string + string"
  writeFileSync :: "string \<Rightarrow> string \<Rightarrow> string option"

definition msg_no_audio :: string where
  "msg_no_audio =
     [CHR 0xE9, CHR 0x9F, CHR 0xB3, CHR 0xE9, CHR 0xA2, CHR 0x91, CHR 0xE6, CHR 0x96, CHR 0x87,
      CHR 0xE4, CHR 0xBB, CHR 0xB6, CHR 0xE4, CHR 0xB8, CHR 0x8D, CHR 0xE5, CHR 0xAD, CHR 0x98,
      CHR 0xE5, CHR 0x9C, CHR 0xA8]"

definition msg_empty_subtitle :: string where
  "msg_empty_subtitle =
     [CHR 0xE5, CHR 0xAD, CHR 0x97, CHR 0xE5, CHR 0xB9, CHR 0x95, CHR 0xE6, CHR 0x96, CHR 0x87,
      CHR 0xE6, CHR 0x9C, CHR 0xAC, CHR 0xE4, CHR 0xB8, CHR 0xBA, CHR 0xE7, CHR 0xA9, CHR 0xBA]"

definition probe_command :: "string \<Rightarrow> string" where
  "probe_command fullPath =
     ''ffprobe -v error -show_entries format=duration -of default=noprint_wrappers=1:nokey=1 ''
     @ dq @ fullPath @ dq"

definition align_subtitle :: "host \<Rightarrow> world \<Rightarrow> string \<Rightarrow> string \<Rightarrow> response \<times> effect list" where
  "align_subtitle h w audioPath subtitleText =
     (let fullPath = path_join h [dirname h, audioPath]
      in if \<not> existsSync w fullPath
         then (\<lparr>status = 400, body = ErrorBody msg_no_audio\<rparr>, [])
         else
           let lines = filter (\<lambda>line. trim line \<noteq> []) (split_nl subtitleText)
           in if length lines = 0
              then (\<lparr>status = 400, body = ErrorBody msg_empty_subtitle\<rparr>, [])
              else
                (case execSync w (probe_command fullPath) of
                   Inl message \<Rightarrow>
                     (\<lparr>status = 500, body = ErrorBody message\<rparr>, [Exec (probe_command fullPath)])
                 | Inr durationResult \<Rightarrow>
                     let durationSec = parseFloat h (trim durationResult);
                         durationMs = fl (durationSec * 1000);
                         utterances = uniform_cues durationMs lines;
                         srtContent = generateSRT utterances;
                         srtFilename = path_basename h audioPath (path_extname h audioPath)
                                       @ ''-manual.srt'';
                         srtPath = path_join h [dirname h, ''outputs'', srtFilename]
                     in (case writeFileSync w srtPath srtContent of
                           Some message \<Rightarrow>
                             (\<lparr>status = 500, body = ErrorBody message\<rparr>,
                              [Exec (probe_command fullPath), WriteFile srtPath srtContent])
                         | None \<Rightarrow>
                             (\<lparr>status = 200,
                               body = AlignOk (''/outputs/'' @ srtFilename) durationMs (length lines)\<rparr>,
                              [Exec (probe_command fullPath), WriteFile srtPath srtContent]))))"

section \<open>Composition planner\<close>

text \<open>
  The handler of \<^verbatim>\<open>POST /api/generate-video\<close> (lines 224 to 285). \<^verbatim>\<open>aspectRatio\<close> falls
  back to \<open>9:16\<close> and \<^verbatim>\<open>subtitleStyle\<close> to the empty object only when absent. The
  planner is everything up to \<^verbatim>\<open>execSync(command)\<close>; \<open>now\<close> is \<^verbatim>\<open>Date.now()\<close>.
\<close>

record subtitle_style =
  sty_fontSize :: "string option"
  sty_fontColor :: "string option"
  sty_outlineColor :: "string option"
  sty_outlineWidth :: "string option"

record video_request =
  req_audioPath :: string
  req_imagePath :: string
  req_srtPath :: "string option"
  req_withSubtitles :: bool
  req_originalFilename :: "string option"
  req_aspectRatio :: "string option"
  req_subtitleStyle :: subtitle_style

record composition =
  plan_videoSize :: string
  plan_marginV :: int
  plan_styleStr :: string
  plan_outputName :: string
  plan_outputPath :: string
  plan_command :: string

text \<open>The branded prefix \<^verbatim>\<open>pimsleur \<close>, six Chinese characters, \<^verbatim>\<open>-\<close>.\<close>

definition brand :: string where
  "brand = ''pimsleur '' @
     [CHR 0xE6, CHR 0x97, CHR 0xA5, CHR 0xE5, CHR 0xB8, CHR 0xB8, CHR 0xE8, CHR 0x8B, CHR 0xB1,
      CHR 0xE8, CHR 0xAF, CHR 0xAD, CHR 0xE5, CHR 0xAF, CHR 0xB9, CHR 0xE8, CHR 0xAF, CHR 0x9D]
     @ ''-''"

definition encode_tail :: string where
  "encode_tail =
     '' -c:v libx264 -tune stillimage -c:a aac -b:a 192k -pix_fmt yuv420p -shortest -y ''"

definition plan_video :: "host \<Rightarrow> int \<Rightarrow> video_request \<Rightarrow> composition" where
  "plan_video h now req =
     (let fontSize = or_else (sty_fontSize (req_subtitleStyle req)) ''24'';
          fontColor = cssToAssColor (or_else (sty_fontColor (req_subtitleStyle req)) ''#FFFFFF'');
          outlineColor =
            cssToAssColor (or_else (sty_outlineColor (req_subtitleStyle req)) ''#000000'');
          outlineWidth = or_else (sty_outlineWidth (req_subtitleStyle req)) ''2'';
          aspectRatio = (case req_aspectRatio req of None \<Rightarrow> ''9:16'' | Some a \<Rightarrow> a);
          audioFullPath = path_join h [dirname h, req_audioPath req];
          imageFullPath = path_join h [dirname h, req_imagePath req];
          baseName =
            (if truthy (req_originalFilename req)
             then path_basename h (the (req_originalFilename req))
                    (path_extname h (the (req_originalFilename req)))
             else ''video-'' @ toString now);
          outputName = brand @ baseName @ ''.mp4'';
          outputPath = path_join h [dirname h, ''outputs'', ''videos'', outputName];
          videoSize = (if aspectRatio = ''9:16'' then ''1080:1920'' else ''1920:1080'');
          marginV = (if aspectRatio = ''9:16'' then 60 else 40);
          styleStr =
            ''FontName=PingFang SC,FontSize='' @ fontSize @ '',PrimaryColour='' @ fontColor @
            '',OutlineColour='' @ outlineColor @ '',Outline='' @ outlineWidth @
            '',Shadow=0,Alignment=2,MarginV='' @ toString marginV;
          scale_pad =
            ''scale='' @ videoSize @ '':force_original_aspect_ratio=decrease,pad='' @ videoSize @
            '':(ow-iw)/2:(oh-ih)/2'';
          command =
            (if req_withSubtitles req \<and> truthy (req_srtPath req)
             then let srtFullPath = path_join h [dirname h, the (req_srtPath req)]
                  in ''ffmpeg -loop 1 -i '' @ dq @ imageFullPath @ dq @ '' -i '' @ dq @
                     audioFullPath @ dq @ '' -vf '' @ dq @ scale_pad @ '',subtitles='' @ sq @
                     srtFullPath @ sq @ '':force_style='' @ sq @ styleStr @ sq @ dq @
                     encode_tail @ dq @ outputPath @ dq
             else ''ffmpeg -loop 1 -i '' @ dq @ imageFullPath @ dq @ '' -i '' @ dq @
                  audioFullPath @ dq @ '' -vf '' @ dq @ scale_pad @ dq @
                  encode_tail @ dq @ outputPath @ dq)
      in \<lparr>plan_videoSize = videoSize, plan_marginV = marginV, plan_styleStr = styleStr,
          plan_outputName = outputName, plan_outputPath = outputPath,
          plan_command = command\<rparr>)"

definition generate_video :: "host \<Rightarrow> world \<Rightarrow> int \<Rightarrow> video_request \<Rightarrow> response \<times> effect list" where
  "generate_video h w now req =
     (let p = plan_video h now req
      in case execSync w (plan_command p) of
           Inl message \<Rightarrow> (\<lparr>status = 500, body = ErrorBody message\<rparr>, [Exec (plan_command p)])
         | Inr out \<Rightarrow>
             (\<lparr>status = 200,
               body = VideoOk (''/outputs/videos/'' @ encodeURIComponent h (plan_outputName p))
                              (plan_outputName p) (plan_outputPath p)\<rparr>,
              [Exec (plan_command p)]))"

section \<open>Cover-generation command\<close>

text \<open>
  The command of \<^verbatim>\<open>POST /api/generate-cover\<close> (lines 183 to 193). Here the prompt is
  embedded after \<^verbatim>\<open>prompt.replace(/"/g, '\\"')\<close>: every double quote gets a backslash
  in front of it.
\<close>

definition escape_dq :: "string \<Rightarrow> string" where
  "escape_dq s = concat (map (\<lambda>c. if c = CHR 0x22 then [CHR 0x5C, CHR 0x22] else [c]) s)"

definition cover_command :: "host \<Rightarrow> int \<Rightarrow> string \<Rightarrow> string option \<Rightarrow> string option \<Rightarrow> string" where
  "cover_command h now title customPrompt aspectRatio0 =
     (let aspectRatio = (case aspectRatio0 of None \<Rightarrow> ''9:16'' | Some a \<Rightarrow> a);
          orientationDesc =
            (if aspectRatio = ''9:16''
             then ''vertical 9:16 portrait orientation (1080x1920 pixels)''
             else ''horizontal 16:9 landscape orientation (1920x1080 pixels)'');
          prompt =
            or_else customPrompt
              (''Cute kawaii cartoon illustration, '' @ orientationDesc @
               ''. A cheerful scene depicting: '' @ title @
               ''. Adorable chibi-style characters with big sparkling eyes. '' @
               ''Flat design style with soft pastel colors, clean lines, '' @
               ''and a cozy warm atmosphere. No text in the image.'');
          outputName = ''cover-'' @ toString now;
          outputDir = path_join h [dirname h, ''outputs'', ''images'']
      in ''python3 ~/.config/pie/skills/nano_banana/scripts/image_gen.py generate --prompt '' @
         dq @ escape_dq prompt @ dq @ '' --output '' @ dq @
         path_join h [outputDir, outputName] @ dq)"

section \<open>Request signer\<close>

text \<open>
  \<^verbatim>\<open>
  function generateAuthHeaders(method, apiPath, appId, appSecret) {
    const timestamp = Math.floor(Date.now() / 1000)
    const nonce = randomBytes(16).toString('hex')
    const signatureString = `${method}\n${apiPath}\n${timestamp}\n${nonce}\n${appId}`
    const signature = createHmac('sha256', appSecret).update(signatureString).digest('hex')
    return { 'X-App-Id': appId, 'X-Timestamp': timestamp.toString(), 'X-Nonce': nonce,
             'Authorization': `HMAC-SHA256 ${signature}` }
  }
  \<close>
  The clock \<^verbatim>\<open>Date.now()\<close> and the buffer \<^verbatim>\<open>randomBytes(16)\<close> are inputs; the keyed hash
  \<^verbatim>\<open>createHmac('sha256', key).update(msg).digest('hex')\<close> of Node's crypto module is the
  parameter \<open>hmac_sha256_hex key msg\<close>.
\<close>

definition hex_alphabet :: string where
  "hex_alphabet = ''0123456789abcdef''"

definition hex_digit :: "nat \<Rightarrow> char" where
  "hex_digit d = hex_alphabet ! d"

definition hex_byte :: "8 word \<Rightarrow> string" where
  "hex_byte b = [hex_digit (unat b div 16), hex_digit (unat b mod 16)]"

definition hex :: "8 word list \<Rightarrow> string" where
  "hex bs = concat (map hex_byte bs)"

record auth_headers =
  X_App_Id :: string
  X_Timestamp :: string
  X_Nonce :: string
  Authorization :: string

definition generateAuthHeaders ::
  "(string \<Rightarrow> string \<Rightarrow> string) \<Rightarrow> int \<Rightarrow> 8 word list \<Rightarrow>
   string \<Rightarrow> string \<Rightarrow> string \<Rightarrow> string \<Rightarrow> auth_headers" where
  "generateAuthHeaders hmac_sha256_hex now random16 method apiPath appId appSecret =
     (let timestamp = floor_div now 1000;
          nonce = hex random16;
          signatureString =
            method @ nl @ apiPath @ nl @ toString timestamp @ nl @ nonce @ nl @ appId;
          signature = hmac_sha256_hex appSecret signatureString
      in \<lparr>X_App_Id = appId, X_Timestamp = toString timestamp, X_Nonce = nonce,
          Authorization = ''HMAC-SHA256 '' @ signature\<rparr>)"

section \<open>Escaped quotes\<close>

text \<open>
  A quote character is escaped in a text when each of its occurrences comes directly
  after a backslash that introduces it, which is what the replacement in the cover
  command arranges for the double quote.
\<close>

fun quotes_escaped :: "char \<Rightarrow> string \<Rightarrow> bool" where
  "quotes_escaped q [] = True"
| "quotes_escaped q [c] = (c \<noteq> q)"
| "quotes_escaped q (c # d # cs) =
     (c \<noteq> q \<and> (if c = CHR 0x5C \<and> d = q then quotes_escaped q cs
                else quotes_escaped q (d # cs)))"

text \<open>A request with subtitles whose font size is \<^verbatim>\<open>24'\<close>, all other style fields absent.\<close>

definition quoted_size_request :: video_request where
  "quoted_size_request =
     \<lparr>req_audioPath = ''uploads/a.mp3'', req_imagePath = ''outputs/images/c.jpg'',
      req_srtPath = Some ''outputs/a.srt'', req_withSubtitles = True,
      req_originalFilename = None, req_aspectRatio = None,
      req_subtitleStyle = \<lparr>sty_fontSize = Some (''24'' @ sq), sty_fontColor = None,
        sty_outlineColor = None, sty_outlineWidth = None\<rparr>\<rparr>"

section \<open>Properties of the rounding\<close>

lemma floorlog2_bounds:
  assumes "0 < p"
  shows "(2::rat) powi (int (floorlog 2 (nat p)) - 1) \<le> of_int p"
    and "of_int p < (2::rat) powi int (floorlog 2 (nat p))"
proof -
  define b where "b = floorlog 2 (nat p)"
  from assms have np: "0 < nat p" by simp
  have lo: "2 ^ (b - 1) \<le> nat p" and hi: "nat p < 2 ^ b"
    using floorlog_bounds [of "nat p" 2] np by (simp_all add: b_def)
  have b1: "1 \<le> b"
    using np by (simp add: b_def floorlog_def)
  then have eq: "int b - 1 = int (b - 1)" by simp
  have "(of_nat (2 ^ (b - 1)) :: rat) \<le> of_nat (nat p)"
    using lo by (simp only: of_nat_le_iff)
  then show "(2::rat) powi (int (floorlog 2 (nat p)) - 1) \<le> of_int p"
    using assms unfolding b_def [symmetric] eq power_int_of_nat by simp
  have "(of_nat (nat p) :: rat) < of_nat (2 ^ b)"
    using hi by (simp only: of_nat_less_iff)
  then show "of_int p < (2::rat) powi int (floorlog 2 (nat p))"
    using assms unfolding b_def [symmetric] power_int_of_nat by simp
qed

lemma ilog2_bounds:
  assumes "0 < x"
  shows "2 powi (ilog2 x) \<le> x" and "x < 2 powi (ilog2 x + 1)"
proof -
  obtain p q where pq: "quotient_of x = (p, q)" by force
  then have q: "0 < q" and x: "x = of_int p / of_int q"
    by (auto dest: quotient_of_denom_pos quotient_of_div)
  with assms have p: "0 < p" by (simp add: zero_less_divide_iff)
  define d where "d = int (floorlog 2 (nat p)) - int (floorlog 2 (nat q))"
  have il: "ilog2 x = (if 2 powi d \<le> x then d else d - 1)"
    by (simp add: ilog2_def pq d_def Let_def)
  note P = floorlog2_bounds [OF p] and Q = floorlog2_bounds [OF q]
  have qpos: "(0::rat) < of_int q" using q by simp
  have "x < 2 powi int (floorlog 2 (nat p)) / 2 powi (int (floorlog 2 (nat q)) - 1)"
    unfolding x using P(2) Q(1) p q
    by (intro frac_less) simp_all
  also have "\<dots> = 2 powi (int (floorlog 2 (nat p)) - (int (floorlog 2 (nat q)) - 1))"
    by (rule power_int_diff [symmetric]) simp
  also have "int (floorlog 2 (nat p)) - (int (floorlog 2 (nat q)) - 1) = d + 1"
    by (simp add: d_def)
  finally have up: "x < 2 powi (d + 1)" .
  have "2 powi (int (floorlog 2 (nat p)) - 1) / 2 powi int (floorlog 2 (nat q)) < x"
    unfolding x using P(1) Q(2) p q
    by (intro frac_less2) simp_all
  moreover have "2 powi (int (floorlog 2 (nat p)) - 1) / 2 powi int (floorlog 2 (nat q))
      = (2::rat) powi (int (floorlog 2 (nat p)) - 1 - int (floorlog 2 (nat q)))"
    by (rule power_int_diff [symmetric]) simp
  moreover have "int (floorlog 2 (nat p)) - 1 - int (floorlog 2 (nat q)) = d - 1"
    by (simp add: d_def)
  ultimately have lo: "2 powi (d - 1) < x" by simp
  show "2 powi (ilog2 x) \<le> x"
    using lo by (simp add: il)
  show "x < 2 powi (ilog2 x + 1)"
    using up by (simp add: il)
qed

lemma round_even_error: "\<bar>of_int (round_even y) - y\<bar> \<le> 1 / 2"
proof -
  define r where "r = y - of_int \<lfloor>y\<rfloor>"
  have r: "0 \<le> r" "r < 1" unfolding r_def by linarith+
  have y: "y = of_int \<lfloor>y\<rfloor> + r" by (simp add: r_def)
  consider "r < 1 / 2" | "1 / 2 < r" | "r = 1 / 2" by linarith
  then show ?thesis
  proof cases
    case 1
    then have "round_even y = \<lfloor>y\<rfloor>"
      by (simp add: round_even_def Let_def r_def)
    then have "of_int (round_even y) - y = - r"
      by (simp add: r_def)
    then show ?thesis using 1 r by simp
  next
    case 2
    then have "round_even y = \<lfloor>y\<rfloor> + 1"
      by (simp add: round_even_def Let_def r_def)
    then have "of_int (round_even y) - y = 1 - r" 
      by (simp add: r_def)
    then show ?thesis using 2 r by simp
  next
    case 3
    then have "round_even y = \<lfloor>y\<rfloor> \<or> round_even y = \<lfloor>y\<rfloor> + 1"
      by (simp add: round_even_def Let_def r_def)
    then have "of_int (round_even y) - y = - r \<or> of_int (round_even y) - y = 1 - r"
      by (auto simp: r_def)
    then show ?thesis using 3 by auto
  qed
qed

lemma fl_error: "\<bar>fl x - x\<bar> \<le> \<bar>x\<bar> / 2 ^ 53"
proof (cases "x = 0")
  case True
  then show ?thesis by (simp add: fl_def)
next
  case False
  define e where "e = ilog2 \<bar>x\<bar> - 52"
  define P :: rat where "P = 2 powi e"
  define m where "m = round_even (\<bar>x\<bar> / P)"
  have Ppos: "0 < P" by (simp add: P_def)
  have flx: "fl x = sgn x * of_int m * P"
    using False by (simp add: fl_def Let_def e_def P_def m_def)
  have "fl x - x = sgn x * (of_int m * P - \<bar>x\<bar>)"
    by (simp add: flx algebra_simps flip: abs_sgn mult_sgn_abs) (metis mult.commute mult_sgn_abs)
  then have "\<bar>fl x - x\<bar> = \<bar>of_int m * P - \<bar>x\<bar>\<bar>"
    using False by (simp add: abs_mult abs_sgn_eq)
  also have "of_int m * P - \<bar>x\<bar> = (of_int m - \<bar>x\<bar> / P) * P"
    using Ppos by (simp add: algebra_simps)
  also have "\<bar>\<dots>\<bar> = \<bar>of_int m - \<bar>x\<bar> / P\<bar> * P"
    using Ppos by (simp add: abs_mult)
  also have "\<dots> \<le> (1 / 2) * P"
    using round_even_error [of "\<bar>x\<bar> / P"] Ppos unfolding m_def
    by (intro mult_right_mono) simp_all
  also have "P = 2 powi (ilog2 \<bar>x\<bar>) / 2 ^ 52"
    by (simp add: P_def e_def power_int_diff)
  also have "1 / 2 * (2 powi (ilog2 \<bar>x\<bar>) / 2 ^ 52) \<le> 1 / 2 * (\<bar>x\<bar> / 2 ^ 52)"
    using ilog2_bounds(1) [of "\<bar>x\<bar>"] False
    by (intro mult_left_mono divide_right_mono) simp_all
  finally show ?thesis by simp
qed

lemma fl_zero: "fl 0 = 0"
  by (simp add: fl_def)

lemma ilog2_unique:
  assumes "0 < x" and lo: "2 powi e \<le> x" and hi: "x < 2 powi (e + 1)"
  shows "ilog2 x = e"
proof (rule antisym)
  have "(2::rat) powi (ilog2 x) < 2 powi (e + 1)"
    using ilog2_bounds(1) [OF assms(1)] hi by linarith
  then have "ilog2 x < e + 1"
    by (metis not_less power_int_increasing one_le_numeral)
  then show "ilog2 x \<le> e" by simp
next
  have "(2::rat) powi e < 2 powi (ilog2 x + 1)"
    using ilog2_bounds(2) [OF assms(1)] lo by linarith
  then have "e < ilog2 x + 1"
    by (metis not_less power_int_increasing one_le_numeral)
  then show "e \<le> ilog2 x" by simp
qed

lemma round_even_eqI:
  assumes "\<bar>y - of_int m\<bar> < 1 / 2"
  shows "round_even y = m"
proof -
  have e: "\<bar>of_int (round_even y) - y\<bar> \<le> 1 / 2" by (rule round_even_error)
  have "\<bar>(of_int (round_even y) :: rat) - of_int m\<bar> < 1"
    using e assms by linarith
  then have "\<bar>(of_int (round_even y - m) :: rat)\<bar> < 1" by simp
  then have "\<bar>round_even y - m\<bar> < 1"
    by (metis of_int_abs of_int_less_1_iff)
  then show ?thesis by simp
qed

text \<open>
  A certificate for one rounding: a positive \<open>x\<close> below \<open>2 ^ 53\<close> whose multiple
  \<open>x * 2 ^ k\<close> lies in \<open>[2 ^ 52, 2 ^ 53)\<close> and within a half of the integer \<open>m\<close> rounds to
  \<open>m / 2 ^ k\<close>.
\<close>

lemma fl_cert:
  assumes lo: "2 ^ 52 \<le> x * 2 ^ k" and hi: "x * 2 ^ k < 2 ^ 53"
    and m: "\<bar>x * 2 ^ k - of_int m\<bar> < 1 / 2"
  shows "fl x = of_int m / 2 ^ k"
proof -
  have k0: "(0::rat) < 2 ^ k" by simp
  have x0: "0 < x"
  proof (rule ccontr)
    assume "\<not> 0 < x"
    then have "x * 2 ^ k \<le> 0" using k0 by (simp add: mult_le_0_iff)
    with lo show False by simp
  qed
  have p: "(2::rat) powi (52 - int k) = 2 ^ 52 / 2 ^ k"
    by (simp add: power_int_diff)
  have p1: "(2::rat) powi (52 - int k + 1) = 2 ^ 53 / 2 ^ k"
    by (simp add: power_int_diff power_int_add)
  have "2 powi (52 - int k) \<le> x"
    unfolding p using lo k0 by (simp add: pos_divide_le_eq)
  moreover have "x < 2 powi (52 - int k + 1)"
    unfolding p1 using hi k0 by (simp add: pos_less_divide_eq)
  ultimately have il: "ilog2 x = 52 - int k"
    using x0 by (intro ilog2_unique)
  have q: "(2::rat) powi (- int k) = 1 / 2 ^ k"
    by (simp add: power_int_minus divide_inverse)
  have r: "round_even (x * 2 ^ k) = m"
    using m by (rule round_even_eqI)
  show ?thesis
    using x0 by (simp add: fl_def il Let_def q r)
qed

lemma fl_of_int:
  assumes "0 < k" and "k < 2 ^ 53"
  shows "fl (of_int k) = of_int k"
proof -
  define x :: rat where "x = of_int k"
  define e where "e = ilog2 x"
  have x0: "0 < x" using assms(1) by (simp add: x_def)
  have x1: "1 \<le> x" using assms(1) by (simp add: x_def)
  have xh: "x < 2 ^ 53"
    using assms(2) unfolding x_def by (metis of_int_less_iff of_int_numeral of_int_power)
  note B = ilog2_bounds [OF x0, folded e_def]
  have "(2::rat) powi e < 2 powi 53" using B(1) xh by simp
  then have e52: "e \<le> 52"
    using power_int_increasing [of 53 e "2::rat"] by (cases "53 \<le> e") simp_all
  have "(2::rat) powi 0 < 2 powi (e + 1)" using B(2) x1 by simp
  then have e0: "0 \<le> e"
    using power_int_increasing [of "e + 1" 0 "2::rat"] by (cases "e + 1 \<le> 0") simp_all
  define kk where "kk = nat (52 - e)"
  have kk: "(2::rat) ^ kk = 2 powi (52 - e)"
    using e52 by (simp add: kk_def power_int_def)
  have lo: "2 ^ 52 \<le> x * 2 ^ kk"
  proof -
    have "(2::rat) powi e * 2 powi (52 - e) \<le> x * 2 powi (52 - e)"
      using B(1) by (intro mult_right_mono) simp_all
    moreover have "(2::rat) powi e * 2 powi (52 - e) = 2 powi 52"
      by (simp flip: power_int_add)
    ultimately show ?thesis by (simp add: kk)
  qed
  have hi: "x * 2 ^ kk < 2 ^ 53"
  proof -
    have "x * 2 powi (52 - e) < 2 powi (e + 1) * 2 powi (52 - e)"
      using B(2) by (intro mult_strict_right_mono) simp_all
    moreover have "(2::rat) powi (e + 1) * 2 powi (52 - e) = 2 powi 53"
      by (simp flip: power_int_add)
    ultimately show ?thesis by (simp add: kk)
  qed
  have m: "\<bar>x * 2 ^ kk - of_int (k * 2 ^ kk)\<bar> < 1 / 2"
    by (simp add: x_def)
  have "fl x = of_int (k * 2 ^ kk) / 2 ^ kk"
    using lo hi m by (rule fl_cert)
  then show ?thesis by (simp add: x_def)
qed

text \<open>
  For integers \<open>0 \<le> a < 2 ^ 53\<close> and \<open>b > 0\<close> the rounding of the quotient never
  reaches the next integer: \<^verbatim>\<open>Math.floor(a / b)\<close> is the floor division.
\<close>

lemma floor_fl_div:
  assumes a: "0 \<le> a" "a < 2 ^ 53" and b: "0 < b"
  shows "\<lfloor>fl (of_int a / of_int b)\<rfloor> = a div b"
proof (cases "a mod b = 0")
  case True
  then have ab: "a = a div b * b"
    using div_mult_mod_eq [of a b] by simp
  then have "(of_int a :: rat) = of_int (a div b) * of_int b"
    by (metis of_int_mult)
  then have x: "(of_int a / of_int b :: rat) = of_int (a div b)"
    using b by simp
  show ?thesis
  proof (cases "a div b = 0")
    case True
    then show ?thesis by (simp add: x fl_def)
  next
    case False
    have "0 \<le> a div b" using a(1) b by (simp add: pos_imp_zdiv_nonneg_iff)
    with False have k0: "0 < a div b" by simp
    have "a div b * 1 \<le> a div b * b"
      using k0 b by (intro mult_left_mono) simp_all
    then have "a div b \<le> a" using ab by simp
    then have "a div b < 2 ^ 53" using a(2) by simp
    with k0 have "fl (of_int (a div b)) = of_int (a div b)" by (rule fl_of_int)
    then show ?thesis by (simp add: x)
  qed
next
  case False
  define x :: rat where "x = of_int a / of_int b"
  define k where "k = a div b"
  define r where "r = a mod b"
  have "0 \<le> a mod b" "a mod b < b" using b by simp_all
  with False have r: "0 < r" "r < b" by (simp_all add: r_def)
  have ab: "a = k * b + r" by (simp add: k_def r_def)
  have bq: "(0::rat) < of_int b" using b by simp
  have xk: "x = of_int k + of_int r / of_int b"
    using b by (simp add: x_def ab add_divide_distrib)
  have r1: "1 / of_int b \<le> (of_int r / of_int b :: rat)"
    using r b by (simp add: divide_le_cancel)
  have "r + 1 \<le> b" using r by simp
  then have "(of_int (r + 1) :: rat) \<le> of_int b" by (simp only: of_int_le_iff)
  then have "(of_int r + 1) / of_int b \<le> (1::rat)"
    using bq by (simp add: pos_divide_le_eq)
  then have r2: "(of_int r / of_int b :: rat) \<le> 1 - 1 / of_int b"
    by (simp add: add_divide_distrib)
  have x0: "0 \<le> x" using a(1) b by (simp add: x_def)
  have "(of_int a :: rat) < 2 ^ 53"
    using a(2) by (metis of_int_less_iff of_int_numeral of_int_power)
  then have "x / 2 ^ 53 < 1 / of_int b"
    using bq by (simp add: x_def field_simps)
  moreover have "\<bar>fl x - x\<bar> \<le> x / 2 ^ 53"
    using fl_error [of x] x0 by simp
  ultimately have e: "\<bar>fl x - x\<bar> < 1 / of_int b" by linarith
  have "of_int k < fl x" using e xk r1 by linarith
  moreover have "fl x < of_int k + 1" using e xk r2 by linarith
  ultimately have "\<lfloor>fl x\<rfloor> = k" by (intro floor_unique) simp_all
  then show ?thesis by (simp add: x_def k_def)
qed

section \<open>Properties of the time codec\<close>

lemma floor_div_eq_div: "floor_div a b = a div b"
  by (simp add: floor_div_def floor_divide_of_int_eq)

lemma js_rem_nonneg: "0 \<le> a \<Longrightarrow> 0 < b \<Longrightarrow> js_rem a b = a mod b"
  by (cases "a = 0") (simp_all add: js_rem_def)

lemma toString_nonneg: "0 \<le> i \<Longrightarrow> toString i = decimal (nat i)"
  by (simp add: toString_def)

lemma decimal_small: "n < 10 \<Longrightarrow> decimal n = [digit n]"
  by simp

lemma length_decimal_lt10: "n < 10 \<Longrightarrow> length (decimal n) = 1"
  by simp

lemma length_decimal_lt100: "n < 100 \<Longrightarrow> length (decimal n) \<le> 2"
  by (subst decimal.simps) (simp del: decimal.simps add: length_decimal_lt10)

lemma length_decimal_lt1000: "n < 1000 \<Longrightarrow> length (decimal n) \<le> 3"
proof -
  assume n: "n < 1000"
  then have "n div 10 < 100" by simp
  then have "length (decimal (n div 10)) \<le> 2" by (rule length_decimal_lt100)
  then show ?thesis
    by (subst decimal.simps) (simp del: decimal.simps add: length_decimal_lt10)
qed

lemma length_decimal_pos: "0 < length (decimal n)"
  by (subst decimal.simps) (simp del: decimal.simps)

lemma length_padStart: "length (padStart n c s) = max n (length s)"
  by (simp add: padStart_def)

lemma floor_quotient_eq_div:
  "0 \<le> a \<Longrightarrow> a < 2 ^ 53 \<Longrightarrow> 0 < b \<Longrightarrow> floor_quotient a b = a div b"
  unfolding floor_quotient_def by (rule floor_fl_div)

lemma number_toString_small:
  assumes "0 \<le> i" and "i < 2 ^ 53"
  shows "number_toString i = decimal (nat i)"
proof -
  have "nat i < 2 ^ 53" using assms by (simp add: nat_less_iff)
  then show ?thesis using assms(1) by (simp add: number_toString_def number_toString_nat_def)
qed

lemma below_2_53: "x < c \<Longrightarrow> c \<le> 2 ^ 53 \<Longrightarrow> x < (2::int) ^ 53"
  by simp

lemma msToSrtTime_eq_spec:
  assumes "ms < 2 ^ 53"
  shows "msToSrtTime ms = spec_timestamp ms"
proof -
  define t where "t = max 0 ms"
  have t0: "0 \<le> t" and t53: "t < 2 ^ 53" using assms by (simp_all add: t_def)
  have c: "(if ms < 0 then 0 else ms) = t" by (simp add: t_def)
  have r: "js_rem t 3600000 = t mod 3600000" "js_rem t 60000 = t mod 60000"
    "js_rem t 1000 = t mod 1000"
    using t0 by (simp_all add: js_rem_nonneg)
  have b1: "0 \<le> t mod 3600000" "t mod 3600000 < 2 ^ 53"
    and b2: "0 \<le> t mod 60000" "t mod 60000 < 2 ^ 53"
    and b3: "0 \<le> t mod 1000" "t mod 1000 < 2 ^ 53"
    by (simp_all add: below_2_53 [where c = 3600000] below_2_53 [where c = 60000]
          below_2_53 [where c = 1000])
  have q: "floor_quotient t 3600000 = t div 3600000"
    "floor_quotient (t mod 3600000) 60000 = t mod 3600000 div 60000"
    "floor_quotient (t mod 60000) 1000 = t mod 60000 div 1000"
    using t0 t53 b1 b2 by (simp_all add: floor_quotient_eq_div)
  have h0: "0 \<le> t div 3600000" using t0 by (simp add: pos_imp_zdiv_nonneg_iff)
  have "t div 3600000 * 1 \<le> t div 3600000 * 3600000"
    using h0 by (intro mult_left_mono) simp_all
  moreover have "t div 3600000 * 3600000 \<le> t"
    using div_mult_mod_eq [of t 3600000] t0 by simp
  ultimately have h1: "t div 3600000 < 2 ^ 53" using t53 by simp
  have m0: "0 \<le> t mod 3600000 div 60000" "t mod 3600000 div 60000 < 2 ^ 53"
    and s0: "0 \<le> t mod 60000 div 1000" "t mod 60000 div 1000 < 2 ^ 53"
  proof -
    have "t mod 3600000 div 60000 < 60" "t mod 60000 div 1000 < 60" using t0 by arith+
    then show "t mod 3600000 div 60000 < 2 ^ 53" "t mod 60000 div 1000 < 2 ^ 53"
      by (simp_all add: below_2_53 [where c = 60])
    show "0 \<le> t mod 3600000 div 60000" "0 \<le> t mod 60000 div 1000"
      by (simp_all add: pos_imp_zdiv_nonneg_iff)
  qed
  have s: "number_toString (t div 3600000) = decimal (nat (t div 3600000))"
    "number_toString (t mod 3600000 div 60000) = decimal (nat (t mod 3600000 div 60000))"
    "number_toString (t mod 60000 div 1000) = decimal (nat (t mod 60000 div 1000))"
    "number_toString (t mod 1000) = decimal (nat (t mod 1000))"
    using h0 h1 m0 s0 b3 by (simp_all only: number_toString_small)
  show ?thesis
    unfolding msToSrtTime_def spec_timestamp_def Let_def c t_def [symmetric]
    by (simp only: r q s)
qed

lemma length_spec_timestamp:
  "length (spec_timestamp ms) = 10 + max 2 (length (decimal (nat (max 0 ms div 3600000))))"
proof -
  define t where "t = max 0 ms"
  have t0: "0 \<le> t" by (simp add: t_def)
  have "t mod 3600000 div 60000 < 60"
    using t0 by arith
  then have "nat (t mod 3600000 div 60000) < 60"
    by (simp add: nat_less_iff)
  then have m: "length (decimal (nat (t mod 3600000 div 60000))) \<le> 2"
    by (intro length_decimal_lt100) simp
  have "t mod 60000 div 1000 < 60"
    using t0 by arith
  then have "nat (t mod 60000 div 1000) < 60"
    by (simp add: nat_less_iff)
  then have s: "length (decimal (nat (t mod 60000 div 1000))) \<le> 2"
    by (intro length_decimal_lt100) simp
  have "nat (t mod 1000) < 1000"
    using t0 by (simp add: nat_less_iff)
  then have f: "length (decimal (nat (t mod 1000))) \<le> 3"
    by (rule length_decimal_lt1000)
  show ?thesis
    unfolding spec_timestamp_def Let_def t_def [symmetric]
    using m s f by (simp add: length_padStart del: decimal.simps)
qed

lemma decimal_values:
  "decimal 612107565743 = ''612107565743''" "decimal 612107565742 = ''612107565742''"
  "decimal 59 = ''59''" "decimal 872 = ''872''"
  by (simp_all add: digit_def)

text \<open>
  The double \<open>2203587236674799872\<close>: its quotient by 3600000 lies less than a ten-thousandth
  below the integer 612107565743 and rounds to it.
\<close>

lemma round_big_hours: "floor_quotient 2203587236674799872 3600000 = 612107565743"
proof -
  have a: "fl (2203587236674799872 / 3600000) = of_int 5014385178566656 / 2 ^ 13"
    by (rule fl_cert) simp_all
  have b: "\<lfloor>5014385178566656 / 2 ^ 13 :: rat\<rfloor> = 612107565743"
    by (rule floor_unique) simp_all
  show ?thesis
    unfolding floor_quotient_def by (simp only: of_int_numeral a b)
qed

text \<open>
  C4, as stated for every integer, fails at \<open>ms = 2203587236674799872\<close>, an integer the
  host holds exactly: \<^verbatim>\<open>ms / 3600000\<close> rounds up to 612107565743, which is printed as
  the hour field, while the floor division the claim describes gives 612107565742.
\<close>

theorem msToSrtTime_counterexample:
  "msToSrtTime 2203587236674799872 = ''612107565743:59:59,872''
   \<and> spec_timestamp 2203587236674799872 = ''612107565742:59:59,872''
   \<and> (2203587236674799872 :: int) div 3600000 = 612107565742"
proof -
  have r: "js_rem 2203587236674799872 3600000 = 3599872"
    "js_rem 2203587236674799872 60000 = 59872" "js_rem 2203587236674799872 1000 = 872"
    by (simp_all add: js_rem_def)
  have q: "floor_quotient 3599872 60000 = 59" "floor_quotient 59872 1000 = 59"
    by (simp_all add: floor_quotient_eq_div)
  have s: "number_toString 612107565743 = ''612107565743''" "number_toString 59 = ''59''"
    "number_toString 872 = ''872''"
    by (simp_all add: number_toString_small decimal_values del: decimal.simps)
  have a: "msToSrtTime 2203587236674799872 = ''612107565743:59:59,872''"
    unfolding msToSrtTime_def Let_def
    by (simp add: r q s round_big_hours padStart_def del: decimal.simps)
  have b: "spec_timestamp 2203587236674799872 = ''612107565742:59:59,872''"
    unfolding spec_timestamp_def Let_def
    by (simp add: decimal_values padStart_def del: decimal.simps)
  have c: "(2203587236674799872 :: int) div 3600000 = 612107565742"
    by simp
  from a b c show ?thesis by blast
qed

text \<open>
  C4, amended. For every integer \<open>ms\<close> below \<open>2 ^ 53\<close> the time codec clamps a negative
  input to 0, decomposes the clamped value into hours, minutes, seconds and milliseconds
  by floor division with the moduli 3600000, 60000 and 1000, and renders the four fields
  zero-padded to 2/2/2/3 digits, separated by \<open>:\<close>, \<open>:\<close> and \<open>,\<close>: the minute, second and
  millisecond fields are exactly 2, 2 and 3 characters wide and the hour field at least 2.
  \<open>msToSrtTime 3661001\<close> is \<open>01:01:01,001\<close>, and a negative input gives the result for 0.
\<close>

theorem msToSrtTime_correct:
  assumes "ms < 2 ^ 53"
  shows "msToSrtTime ms = spec_timestamp ms
   \<and> msToSrtTime ms = msToSrtTime (max 0 ms)
   \<and> msToSrtTime (- 1 - int k) = msToSrtTime 0
   \<and> length (msToSrtTime ms) = 10 + max 2 (length (decimal (nat (max 0 ms div 3600000))))
   \<and> msToSrtTime 3661001 = ''01:01:01,001''"
proof -
  have a: "msToSrtTime ms = spec_timestamp ms"
    using assms by (rule msToSrtTime_eq_spec)
  have m: "max 0 ms < 2 ^ 53" using assms by simp
  have "spec_timestamp (max 0 ms) = spec_timestamp ms"
    by (simp add: spec_timestamp_def)
  then have b: "msToSrtTime ms = msToSrtTime (max 0 ms)"
    by (simp only: a msToSrtTime_eq_spec [OF m])
  have n: "- 1 - int k < 2 ^ 53" "(0::int) < 2 ^ 53" by simp_all
  have "spec_timestamp (- 1 - int k) = spec_timestamp 0"
    by (simp add: spec_timestamp_def)
  then have c: "msToSrtTime (- 1 - int k) = msToSrtTime 0"
    by (simp only: msToSrtTime_eq_spec [OF n(1)] msToSrtTime_eq_spec [OF n(2)])
  have d: "length (msToSrtTime ms) = 10 + max 2 (length (decimal (nat (max 0 ms div 3600000))))"
    by (simp only: a length_spec_timestamp)
  have "spec_timestamp 3661001 = ''01:01:01,001''"
    by code_simp
  moreover have "(3661001::int) < 2 ^ 53" by simp
  ultimately have e: "msToSrtTime 3661001 = ''01:01:01,001''"
    by (simp only: msToSrtTime_eq_spec)
  from a b c d e show ?thesis by blast
qed

theorem msToSrtTime_correct_witness:
  "(3661001 :: int) < 2 ^ 53
   \<and> msToSrtTime 3661001 = spec_timestamp 3661001
   \<and> msToSrtTime 3661001 = msToSrtTime (max 0 3661001)
   \<and> msToSrtTime 3661001 = ''01:01:01,001''"
proof -
  have h: "(3661001 :: int) < 2 ^ 53" by simp
  from msToSrtTime_correct [OF h] h show ?thesis by blast
qed

section \<open>Properties of the serializer\<close>

text \<open>
  The loop started at sequence number \<open>k\<close> with \<open>acc\<close> appends one block per
  utterance that survives the filter, numbered from \<open>k\<close> upwards, and leaves the
  counter at \<open>k\<close> plus the number of blocks.
\<close>

lemma srt_loop_blocks:
  "srt_loop us (acc, int k) =
     (acc @ concat (map (\<lambda>(j, u). srt_block j u)
                     (zip [k ..< k + length (filter (\<lambda>u. trim (utt_text u) \<noteq> []) us)]
                          (filter (\<lambda>u. trim (utt_text u) \<noteq> []) us))),
      int (k + length (filter (\<lambda>u. trim (utt_text u) \<noteq> []) us)))"
proof (induction us arbitrary: acc k)
  case Nil
  show ?case by simp
next
  case (Cons u us)
  show ?case
  proof (cases "trim (utt_text u) = []")
    case True
    then show ?thesis using Cons.IH [of acc k] by simp
  next
    case False
    have step: "int k + 1 = int (Suc k)" by simp
    from False show ?thesis
      using Cons.IH [of "acc @ srt_block k u" "Suc k"]
      by (simp add: Let_def step srt_block_def toString_nonneg upt_conv_Cons
               del: upt_Suc of_nat_Suc)
  qed
qed

lemma generateSRT_eq_spec: "generateSRT us = spec_serialize us"
  using srt_loop_blocks [of us "[]" 1]
  by (simp add: generateSRT_def spec_serialize_def Let_def)

lemma example_trims: "trim ''a'' = ''a''" "trim ''  '' = []" "trim ''b'' = ''b''"
  by code_simp+

lemma example_times:
  "msToSrtTime 0 = ''00:00:00,000''" "msToSrtTime 1 = ''00:00:00,001''"
  "msToSrtTime 2 = ''00:00:00,002''" "msToSrtTime 3 = ''00:00:00,003''"
proof -
  have "spec_timestamp 0 = ''00:00:00,000''" "spec_timestamp 1 = ''00:00:00,001''"
    "spec_timestamp 2 = ''00:00:00,002''" "spec_timestamp 3 = ''00:00:00,003''"
    by code_simp+
  then show "msToSrtTime 0 = ''00:00:00,000''" "msToSrtTime 1 = ''00:00:00,001''"
    "msToSrtTime 2 = ''00:00:00,002''" "msToSrtTime 3 = ''00:00:00,003''"
    by (simp_all add: msToSrtTime_eq_spec)
qed

lemma example_numbers:
  "decimal (Suc 0) = ''1''" "decimal (Suc (Suc 0)) = ''2''" "decimal 1 = ''1''" "decimal 2 = ''2''"
proof -
  show "decimal 1 = ''1''" "decimal 2 = ''2''"
    by (simp_all add: digit_def)
  then show "decimal (Suc 0) = ''1''" "decimal (Suc (Suc 0)) = ''2''"
    by (simp_all only: One_nat_def [symmetric] Suc_1)
qed

text \<open>
  C3. For every sequence of utterances the serializer's output is the concatenation of
  one block per utterance whose trimmed text is non-empty, in the original order; the
  block of the \<open>k\<close>-th surviving utterance is the decimal number \<open>k\<close> (counted from 1
  over the survivors only), a line feed, \<open>start --> end\<close>, a line feed, the trimmed
  text, and two line feeds. Utterances whose trimmed text is empty contribute nothing, so
  for the texts \<open>a\<close>, two blanks, \<open>b\<close> the output has the two blocks 1 and 2.
\<close>

theorem generateSRT_blocks:
  "generateSRT us =
     concat (map (\<lambda>(k, u). decimal k @ nl @
                     msToSrtTime (start_time u) @ '' --> '' @ msToSrtTime (end_time u) @ nl @
                     trim (utt_text u) @ nl @ nl)
                 (zip [1 ..< Suc (length (filter (\<lambda>u. trim (utt_text u) \<noteq> []) us))]
                      (filter (\<lambda>u. trim (utt_text u) \<noteq> []) us)))
   \<and> generateSRT
         [\<lparr>start_time = 0, end_time = 1, utt_text = ''a''\<rparr>,
          \<lparr>start_time = 1, end_time = 2, utt_text = ''  ''\<rparr>,
          \<lparr>start_time = 2, end_time = 3, utt_text = ''b''\<rparr>]
       = ''1'' @ nl @ ''00:00:00,000 --> 00:00:00,001'' @ nl @ ''a'' @ nl @ nl @
         ''2'' @ nl @ ''00:00:00,002 --> 00:00:00,003'' @ nl @ ''b'' @ nl @ nl"
proof
  have "spec_serialize us =
     concat (map (\<lambda>(k, u). decimal k @ nl @
                     msToSrtTime (start_time u) @ '' --> '' @ msToSrtTime (end_time u) @ nl @
                     trim (utt_text u) @ nl @ nl)
                 (zip [1 ..< Suc (length (filter (\<lambda>u. trim (utt_text u) \<noteq> []) us))]
                      (filter (\<lambda>u. trim (utt_text u) \<noteq> []) us)))"
    unfolding spec_serialize_def Let_def srt_block_def ..
  then show "generateSRT us =
     concat (map (\<lambda>(k, u). decimal k @ nl @
                     msToSrtTime (start_time u) @ '' --> '' @ msToSrtTime (end_time u) @ nl @
                     trim (utt_text u) @ nl @ nl)
                 (zip [1 ..< Suc (length (filter (\<lambda>u. trim (utt_text u) \<noteq> []) us))]
                      (filter (\<lambda>u. trim (utt_text u) \<noteq> []) us)))"
    by (simp only: generateSRT_eq_spec)
next
  show "generateSRT
         [\<lparr>start_time = 0, end_time = 1, utt_text = ''a''\<rparr>,
          \<lparr>start_time = 1, end_time = 2, utt_text = ''  ''\<rparr>,
          \<lparr>start_time = 2, end_time = 3, utt_text = ''b''\<rparr>]
       = ''1'' @ nl @ ''00:00:00,000 --> 00:00:00,001'' @ nl @ ''a'' @ nl @ nl @
         ''2'' @ nl @ ''00:00:00,002 --> 00:00:00,003'' @ nl @ ''b'' @ nl @ nl"
    unfolding generateSRT_eq_spec spec_serialize_def Let_def srt_block_def
    by (simp add: example_trims example_times example_numbers upt_rec del: decimal.simps)
qed

text \<open>
  C10. When the trimmed text of every utterance is empty, and in particular for the empty
  sequence, the serializer returns the empty string: no block is emitted, and the
  function has no failing branch.
\<close>

theorem generateSRT_all_blank:
  assumes "\<forall>u \<in> set us. trim (utt_text u) = []"
  shows "generateSRT us = []"
proof -
  from assms have "filter (\<lambda>u. trim (utt_text u) \<noteq> []) us = []"
    by (simp add: filter_empty_conv)
  then show ?thesis
    by (simp add: generateSRT_eq_spec spec_serialize_def)
qed

theorem generateSRT_all_blank_witness:
  "map (\<lambda>u. trim (utt_text u))
       [\<lparr>start_time = 0, end_time = 1000, utt_text = ''  ''\<rparr>,
        \<lparr>start_time = 1000, end_time = 2000, utt_text = []\<rparr>] = [[], []]
   \<and> generateSRT [\<lparr>start_time = 0, end_time = 1000, utt_text = ''  ''\<rparr>,
                   \<lparr>start_time = 1000, end_time = 2000, utt_text = []\<rparr>] = []"
proof -
  have h: "\<forall>u \<in> set [\<lparr>start_time = 0, end_time = 1000, utt_text = ''  ''\<rparr>,
                       \<lparr>start_time = 1000, end_time = 2000, utt_text = []\<rparr>].
             trim (utt_text u) = []"
    by code_simp
  then have "map (\<lambda>u. trim (utt_text u))
       [\<lparr>start_time = 0, end_time = 1000, utt_text = ''  ''\<rparr>,
        \<lparr>start_time = 1000, end_time = 2000, utt_text = []\<rparr>] = [[], []]"
    by simp
  with generateSRT_all_blank [OF h] show ?thesis by blast
qed

section \<open>Properties of the style translator\<close>

lemma toUpperCase_marker:
  "toUpperCase (CHR ''&'' # CHR ''H'' # CHR ''0'' # CHR ''0'' # s) =
     CHR ''&'' # CHR ''H'' # CHR ''0'' # CHR ''0'' # toUpperCase s"
  by (simp add: toUpperCase_def upper_char_def)

lemma cssToAssColor_marked: "startsWith ''&H'' (cssToAssColor s)"
  by (simp add: cssToAssColor_def Let_def toUpperCase_marker)
     (simp add: startsWith_def)

lemma cssToAssColor_rgb:
  assumes "length r = 2" and "length g = 2" and "length b = 2"
  shows "cssToAssColor (CHR ''#'' # r @ g @ b) = ''&H00'' @ toUpperCase (b @ g @ r)"
  using assms
  by (simp add: cssToAssColor_def startsWith_def substring_def Let_def toUpperCase_marker)

text \<open>
  C5. An input that starts with the marker \<open>&H\<close> is returned unchanged. An input
  \<open>#\<close> followed by the three two-character pairs \<open>r\<close>, \<open>g\<close>, \<open>b\<close> gives \<open>&H00\<close>
  followed by \<open>b\<close>, \<open>g\<close>, \<open>r\<close> in upper case; \<open>#FF00CC\<close> gives \<open>&H00CC00FF\<close>. For
  every string, translating twice gives the same as translating once.
\<close>

theorem cssToAssColor_correct:
  "cssToAssColor (''&H'' @ s) = ''&H'' @ s
   \<and> cssToAssColor (CHR ''#'' # [r1, r2] @ [g1, g2] @ [b1, b2])
       = ''&H00'' @ toUpperCase ([b1, b2] @ [g1, g2] @ [r1, r2])
   \<and> cssToAssColor ''#FF00CC'' = ''&H00CC00FF''
   \<and> cssToAssColor ''&H00CC00FF'' = ''&H00CC00FF''
   \<and> cssToAssColor (cssToAssColor c) = cssToAssColor c"
proof -
  have a: "cssToAssColor (''&H'' @ s) = ''&H'' @ s"
    by (simp add: cssToAssColor_def startsWith_def)
  have b: "cssToAssColor (CHR ''#'' # [r1, r2] @ [g1, g2] @ [b1, b2])
       = ''&H00'' @ toUpperCase ([b1, b2] @ [g1, g2] @ [r1, r2])"
    by (rule cssToAssColor_rgb) simp_all
  have c: "cssToAssColor ''#FF00CC'' = ''&H00CC00FF''"
    by code_simp
  have d: "cssToAssColor ''&H00CC00FF'' = ''&H00CC00FF''"
    by code_simp
  have "startsWith ''&H'' (cssToAssColor c)"
    by (rule cssToAssColor_marked)
  then have e: "cssToAssColor (cssToAssColor c) = cssToAssColor c"
    by (subst cssToAssColor_def) (simp only: if_True)
  from a b c d e show ?thesis by blast
qed

section \<open>Properties of the composition planner\<close>


lemma plan_outputName_eq:
  "plan_outputName (plan_video h now req) =
     brand @ (if truthy (req_originalFilename req)
              then path_basename h (the (req_originalFilename req))
                     (path_extname h (the (req_originalFilename req)))
              else ''video-'' @ toString now) @ ''.mp4''"
  by (simp add: plan_video_def Let_def)

lemma plan_command_tail:
  "\<exists>pre. plan_command (plan_video h now req)
      = pre @ '' -y '' @ dq @ plan_outputPath (plan_video h now req) @ dq"
proof (cases "req_withSubtitles req \<and> truthy (req_srtPath req)")
  case True
  then show ?thesis
    unfolding plan_video_def Let_def encode_tail_def
    by (simp only: if_True composition.simps) (rule exI, simp)
next
  case False
  then show ?thesis
    unfolding plan_video_def Let_def encode_tail_def
    by (simp only: if_False composition.simps) (rule exI, simp)
qed

text \<open>
  C9. The output file name is the branded prefix, then a base name, then \<open>.mp4\<close>. With
  a non-empty original upload name the base name is that name reduced by
  \<^verbatim>\<open>path.basename\<close> to its last path component without its extension; with no name,
  or an empty one, it is \<open>video-\<close> followed by the clock value. The output path is that
  name under \<open>outputs/videos\<close>, and it is the last, quoted argument of the command.
\<close>

theorem output_name:
  "plan_outputName (plan_video h now (req\<lparr>req_originalFilename := Some (c # cs)\<rparr>))
     = brand @ path_basename h (c # cs) (path_extname h (c # cs)) @ ''.mp4''
   \<and> plan_outputName (plan_video h now (req\<lparr>req_originalFilename := None\<rparr>))
     = brand @ ''video-'' @ toString now @ ''.mp4''
   \<and> plan_outputName (plan_video h now (req\<lparr>req_originalFilename := Some []\<rparr>))
     = brand @ ''video-'' @ toString now @ ''.mp4''
   \<and> plan_outputPath (plan_video h now req)
     = path_join h [dirname h, ''outputs'', ''videos'', plan_outputName (plan_video h now req)]
   \<and> (\<exists>pre. plan_command (plan_video h now req)
        = pre @ '' -y '' @ dq @ plan_outputPath (plan_video h now req) @ dq)"
proof -
  have a: "plan_outputName (plan_video h now (req\<lparr>req_originalFilename := Some (c # cs)\<rparr>))
     = brand @ path_basename h (c # cs) (path_extname h (c # cs)) @ ''.mp4''"
    by (simp add: plan_outputName_eq truthy_def)
  have b: "plan_outputName (plan_video h now (req\<lparr>req_originalFilename := None\<rparr>))
     = brand @ ''video-'' @ toString now @ ''.mp4''"
    by (simp add: plan_outputName_eq truthy_def)
  have c: "plan_outputName (plan_video h now (req\<lparr>req_originalFilename := Some []\<rparr>))
     = brand @ ''video-'' @ toString now @ ''.mp4''"
    by (simp add: plan_outputName_eq truthy_def)
  have d: "plan_outputPath (plan_video h now req)
     = path_join h [dirname h, ''outputs'', ''videos'', plan_outputName (plan_video h now req)]"
    by (simp add: plan_video_def Let_def)
  from a b c d plan_command_tail [of h now req] show ?thesis by blast
qed

section \<open>Properties of the request signer\<close>

lemma length_hex_alphabet: "length hex_alphabet = 16"
  by (simp add: hex_alphabet_def)

lemma hex_digit_in: "d < 16 \<Longrightarrow> hex_digit d \<in> set hex_alphabet"
  by (simp add: hex_digit_def length_hex_alphabet)

lemma hex_byte_props: "length (hex_byte b) = 2 \<and> set (hex_byte b) \<subseteq> set hex_alphabet"
proof -
  have "unat b < 256" using unsigned_less [of b] by simp
  then have "unat b div 16 < 16" "unat b mod 16 < 16" by simp_all
  then have "hex_digit (unat b div 16) \<in> set hex_alphabet"
    "hex_digit (unat b mod 16) \<in> set hex_alphabet"
    by (simp_all only: hex_digit_in)
  then show ?thesis
    by (simp add: hex_byte_def)
qed

lemma length_hex: "length (hex bs) = 2 * length bs"
  by (induction bs) (simp_all add: hex_def hex_byte_props)

lemma set_hex: "set (hex bs) \<subseteq> set hex_alphabet"
proof (induction bs)
  case Nil
  show ?case by (simp add: hex_def)
next
  case (Cons b bs)
  have "hex (b # bs) = hex_byte b @ hex bs" by (simp add: hex_def)
  then show ?case using Cons hex_byte_props [of b] by simp
qed

text \<open>
  C8. With the clock value \<open>now\<close> and the sixteen random bytes drawn, the header
  \<open>X-App-Id\<close> is the app id, \<open>X-Timestamp\<close> the decimal unix second \<open>now div 1000\<close>,
  \<open>X-Nonce\<close> the 32 lower-case hexadecimal digits of the bytes, and \<open>Authorization\<close>
  the scheme label \<open>HMAC-SHA256\<close>, a blank, and the keyed hash, under the app secret, of
  method, path, timestamp, nonce and app id joined by line feeds.
\<close>

theorem generateAuthHeaders_correct:
  assumes "length random16 = 16"
  shows "X_App_Id (generateAuthHeaders hmac now random16 method apiPath appId appSecret) = appId
   \<and> X_Timestamp (generateAuthHeaders hmac now random16 method apiPath appId appSecret)
       = toString (now div 1000)
   \<and> X_Nonce (generateAuthHeaders hmac now random16 method apiPath appId appSecret) = hex random16
   \<and> length (hex random16) = 32
   \<and> set (hex random16) \<subseteq> set hex_alphabet
   \<and> Authorization (generateAuthHeaders hmac now random16 method apiPath appId appSecret)
       = ''HMAC-SHA256 '' @
         hmac appSecret
           (method @ nl @ apiPath @ nl @ toString (now div 1000) @ nl @ hex random16 @ nl @ appId)"
  using assms set_hex [of random16]
  by (simp add: generateAuthHeaders_def Let_def floor_div_eq_div length_hex)

theorem generateAuthHeaders_witness:
  "length (replicate 16 (0xAB :: 8 word)) = 16
   \<and> X_Timestamp (generateAuthHeaders (\<lambda>key msg. key @ '':'' @ msg) 1700000000123
        (replicate 16 0xAB) ''POST'' ''/asr/volcengine_quick'' ''app'' ''secret'')
       = toString (1700000000123 div 1000)
   \<and> length (hex (replicate 16 (0xAB :: 8 word))) = 32
   \<and> Authorization (generateAuthHeaders (\<lambda>key msg. key @ '':'' @ msg) 1700000000123
        (replicate 16 0xAB) ''POST'' ''/asr/volcengine_quick'' ''app'' ''secret'')
       = ''HMAC-SHA256 '' @ ''secret'' @ '':'' @
         (''POST'' @ nl @ ''/asr/volcengine_quick'' @ nl @ toString (1700000000123 div 1000) @ nl @
          hex (replicate 16 0xAB) @ nl @ ''app'')"
proof -
  have h: "length (replicate 16 (0xAB :: 8 word)) = 16" by simp
  from generateAuthHeaders_correct [OF h, of "\<lambda>key msg. key @ '':'' @ msg" 1700000000123
      "''POST''" "''/asr/volcengine_quick''" "''app''" "''secret''"] h
  show ?thesis by blast
qed

section \<open>Properties of the alignment operation\<close>

text \<open>
  C7. When no line of the subtitle text has a non-empty trimmed form, the operation
  answers status 400 with an error message (the empty-subtitle message, or the
  missing-audio message when the audio file does not exist, which is tested first) and
  has run no command and written no file.
\<close>

theorem align_zero_lines:
  assumes "\<forall>line \<in> set (split_nl subtitleText). trim line = []"
  shows "snd (align_subtitle h w audioPath subtitleText) = []
     \<and> status (fst (align_subtitle h w audioPath subtitleText)) = 400
     \<and> body (fst (align_subtitle h w audioPath subtitleText))
         = ErrorBody (if existsSync w (path_join h [dirname h, audioPath])
                      then msg_empty_subtitle else msg_no_audio)"
proof -
  from assms have "filter (\<lambda>line. trim line \<noteq> []) (split_nl subtitleText) = []"
    by (simp add: filter_empty_conv)
  then show ?thesis
    by (simp add: align_subtitle_def Let_def)
qed

theorem align_zero_lines_witness:
  "filter (\<lambda>line. trim line \<noteq> []) (split_nl ('' '' @ nl @ nl @ ''  '')) = []
   \<and> snd (align_subtitle
        \<lparr>dirname = ''/srv'', path_join = (\<lambda>ps. concat (map (\<lambda>p. CHR ''/'' # p) ps)),
         path_basename = (\<lambda>p e. p), path_extname = (\<lambda>p. []),
         encodeURIComponent = (\<lambda>s. s), parseFloat = (\<lambda>s. 4)\<rparr>
        \<lparr>existsSync = (\<lambda>p. True), execSync = (\<lambda>c. Inr ''4.000000''),
         writeFileSync = (\<lambda>p c. None)\<rparr>
        ''uploads/a.mp3'' ('' '' @ nl @ nl @ ''  '')) = []
   \<and> status (fst (align_subtitle
        \<lparr>dirname = ''/srv'', path_join = (\<lambda>ps. concat (map (\<lambda>p. CHR ''/'' # p) ps)),
         path_basename = (\<lambda>p e. p), path_extname = (\<lambda>p. []),
         encodeURIComponent = (\<lambda>s. s), parseFloat = (\<lambda>s. 4)\<rparr>
        \<lparr>existsSync = (\<lambda>p. True), execSync = (\<lambda>c. Inr ''4.000000''),
         writeFileSync = (\<lambda>p c. None)\<rparr>
        ''uploads/a.mp3'' ('' '' @ nl @ nl @ ''  ''))) = 400"
proof -
  have h: "\<forall>line \<in> set (split_nl ('' '' @ nl @ nl @ ''  '')). trim line = []"
    by code_simp
  then have "filter (\<lambda>line. trim line \<noteq> []) (split_nl ('' '' @ nl @ nl @ ''  '')) = []"
    by (simp only: filter_empty_conv not_not)
  with align_zero_lines [OF h] show ?thesis by blast
qed

section \<open>Properties of the cue allocator\<close>

lemma alloc_error:
  assumes D: "0 \<le> D"
  shows "\<bar>fl (of_nat i * fl (D / of_nat n)) - of_nat i * D / of_nat n\<bar>
           \<le> (of_nat i * D / of_nat n) * (2 / 2 ^ 53 + 1 / 2 ^ 106)"
proof -
  define q where "q = D / of_nat n"
  define a where "a = fl q"
  define u :: rat where "u = 1 / 2 ^ 53"
  define k :: rat where "k = of_nat i"
  have q0: "0 \<le> q" using D by (simp add: q_def)
  have k0: "0 \<le> k" by (simp add: k_def)
  have u0: "0 \<le> u" by (simp add: u_def)
  have ea: "\<bar>a - q\<bar> \<le> q * u"
    using fl_error [of q] q0 by (simp add: a_def u_def)
  have "\<bar>k * a - k * q\<bar> = k * \<bar>a - q\<bar>"
    using k0 by (simp add: abs_mult flip: right_diff_distrib)
  also have "\<dots> \<le> k * (q * u)"
    using ea k0 by (rule mult_left_mono)
  finally have e1: "\<bar>k * a - k * q\<bar> \<le> k * q * u" by (simp add: mult.assoc)
  then have "\<bar>k * a\<bar> \<le> \<bar>k * q\<bar> + k * q * u" by linarith
  then have ka: "\<bar>k * a\<bar> \<le> k * q + k * q * u"
    using k0 q0 by (simp add: abs_mult)
  have "\<bar>fl (k * a) - k * a\<bar> \<le> \<bar>k * a\<bar> * u"
    using fl_error [of "k * a"] by (simp add: u_def)
  also have "\<dots> \<le> (k * q + k * q * u) * u"
    using ka u0 by (rule mult_right_mono)
  finally have e2: "\<bar>fl (k * a) - k * a\<bar> \<le> (k * q + k * q * u) * u" .
  have "\<bar>fl (k * a) - k * q\<bar> \<le> \<bar>fl (k * a) - k * a\<bar> + \<bar>k * a - k * q\<bar>"
    by linarith
  also have "\<dots> \<le> (k * q + k * q * u) * u + k * q * u"
    using e1 e2 by linarith
  also have "\<dots> = (k * q) * (2 * u + u * u)"
    by (simp add: algebra_simps)
  also have "2 * u + u * u = 2 / 2 ^ 53 + 1 / 2 ^ 106"
    by (simp add: u_def)
  finally show ?thesis
    by (simp add: k_def q_def a_def)
qed

lemma floor_close:
  fixes x y :: rat
  assumes "\<bar>y - x\<bar> < 1"
  shows "\<bar>\<lfloor>y\<rfloor> - \<lfloor>x\<rfloor>\<bar> \<le> 1"
proof -
  have "of_int \<lfloor>y\<rfloor> \<le> y" "y < of_int \<lfloor>y\<rfloor> + 1" "of_int \<lfloor>x\<rfloor> \<le> x" "x < of_int \<lfloor>x\<rfloor> + 1"
    by linarith+
  with assms have "(of_int \<lfloor>y\<rfloor> :: rat) < of_int \<lfloor>x\<rfloor> + 2" "(of_int \<lfloor>x\<rfloor> :: rat) < of_int \<lfloor>y\<rfloor> + 2"
    by linarith+
  then have "\<lfloor>y\<rfloor> < \<lfloor>x\<rfloor> + 2" "\<lfloor>x\<rfloor> < \<lfloor>y\<rfloor> + 2"
    by (simp_all flip: of_int_less_iff [where 'a = rat])
  then show ?thesis by linarith
qed

lemma alloc_floor:
  assumes D: "0 \<le> D" "D < 2 ^ 51" and i: "i \<le> n" and n: "0 < n"
  shows "\<bar>\<lfloor>fl (of_nat i * fl (D / of_nat n))\<rfloor> - \<lfloor>of_nat i * D / of_nat n\<rfloor>\<bar> \<le> 1"
proof (rule floor_close)
  define x :: rat where "x = of_nat i * D / of_nat n"
  have "x = (of_nat i / of_nat n) * D" by (simp add: x_def)
  moreover have "(of_nat i / of_nat n :: rat) \<le> 1" using i n by simp
  ultimately have "x \<le> 1 * D" using D(1) by (simp only: mult_right_mono)
  then have xD: "x < 2 ^ 51" using D(2) by simp
  have x0: "0 \<le> x" using D(1) by (simp add: x_def)
  have "\<bar>fl (of_nat i * fl (D / of_nat n)) - x\<bar> \<le> x * (2 / 2 ^ 53 + 1 / 2 ^ 106)"
    unfolding x_def using D(1) by (rule alloc_error)
  also have "\<dots> \<le> 2 ^ 51 * (2 / 2 ^ 53 + 1 / 2 ^ 106)"
    using xD by (intro mult_right_mono) simp_all
  also have "\<dots> < 1" by simp
  finally show "\<bar>fl (of_nat i * fl (D / of_nat n)) - of_nat i * D / of_nat n\<bar> < 1"
    by (simp add: x_def)
qed

lemma uniform_cues_nth:
  assumes "i < length lines"
  shows "uniform_cues D lines ! i =
     \<lparr>start_time = \<lfloor>fl (of_nat i * fl (D / of_nat (length lines)))\<rfloor>,
      end_time = \<lfloor>fl (of_nat (i + 1) * fl (D / of_nat (length lines)))\<rfloor>,
      utt_text = trim (lines ! i)\<rparr>"
  using assms by (simp add: uniform_cues_def Let_def)

lemma length_uniform_cues: "length (uniform_cues D lines) = length lines"
  by (simp add: uniform_cues_def Let_def)

lemma end_last_uniform_cues:
  assumes "lines \<noteq> []"
  shows "end_time (last (uniform_cues D lines))
           = \<lfloor>fl (of_nat (length lines) * fl (D / of_nat (length lines)))\<rfloor>"
proof -
  from assms have n: "0 < length lines" by simp
  then have "length lines - 1 < length lines" by simp
  then have "uniform_cues D lines ! (length lines - 1) =
       \<lparr>start_time = \<lfloor>fl (of_nat (length lines - 1) * fl (D / of_nat (length lines)))\<rfloor>,
        end_time = \<lfloor>fl (of_nat (length lines - 1 + 1) * fl (D / of_nat (length lines)))\<rfloor>,
        utt_text = trim (lines ! (length lines - 1))\<rparr>"
    by (rule uniform_cues_nth)
  moreover have "last (uniform_cues D lines) = uniform_cues D lines ! (length lines - 1)"
    using n by (simp add: last_conv_nth length_uniform_cues flip: length_greater_0_conv)
  ultimately show ?thesis using n by simp
qed

lemma round_30000_by_7: "\<lfloor>fl (7 * fl (30000 / 7))\<rfloor> = 29999"
proof -
  have a: "fl (30000 / 7) = of_int 4712192690468571 / 2 ^ 40"
    by (rule fl_cert) simp_all
  have b: "fl (7 * (of_int 4712192690468571 / 2 ^ 40)) = of_int 8246337208319999 / 2 ^ 38"
    by (rule fl_cert) simp_all
  show ?thesis
    unfolding a b by (rule floor_unique) simp_all
qed

lemma round_halfway: "\<lfloor>fl (1 * fl (5001 / 2 / 1))\<rfloor> = 2500"
proof -
  have a: "fl (5001 / 2) = of_int 5498657650507776 / 2 ^ 41"
    by (rule fl_cert) simp_all
  have b: "(of_int 5498657650507776 / 2 ^ 41 :: rat) = 5001 / 2" by simp
  show ?thesis
    by (simp add: a b) (rule floor_unique, simp_all)
qed

lemma uniform_cues_hello_world:
  "uniform_cues 4000 [''Hello'', ''World''] =
       [\<lparr>start_time = 0, end_time = 2000, utt_text = ''Hello''\<rparr>,
        \<lparr>start_time = 2000, end_time = 4000, utt_text = ''World''\<rparr>]"
proof -
  have t: "trim ''Hello'' = ''Hello''" "trim ''World'' = ''World''"
    by code_simp+
  have z: "zip [0 ..< length [''Hello'', ''World'']] [''Hello'', ''World'']
             = [(0, ''Hello''), (Suc 0, ''World'')]"
    by (simp add: upt_rec)
  have "fl 2000 = of_int 8796093022208000 / 2 ^ 42"
    by (rule fl_cert) simp_all
  then have f1: "fl 2000 = 2000" by simp
  have "fl 4000 = of_int 8796093022208000 / 2 ^ 41"
    by (rule fl_cert) simp_all
  then have f2: "fl 4000 = 4000" by simp
  show ?thesis
    unfolding uniform_cues_def Let_def z
    by (simp add: t f1 f2 fl_zero)
qed

text \<open>
  C1, as stated, fails on two counts. A thirty-second clip (\<open>D = 30000\<close>) with seven
  lines: \<^verbatim>\<open>30000 / 7\<close> rounds to a double just below the quotient, seven times that
  rounds to a double just below 30000, and the last cue ends at 29999, not at
  \<open>\<lfloor>7 * 30000 / 7\<rfloor> = 30000 = D\<close>. And a duration that is not a whole number of
  milliseconds (\<open>D = 2500.5\<close>, one line): the last cue ends at \<open>\<lfloor>D\<rfloor> = 2500\<close>.
\<close>

theorem uniform_cues_counterexample:
  "end_time (uniform_cues 30000 [''a'', ''b'', ''c'', ''d'', ''e'', ''f'', ''g''] ! 6) = 29999
   \<and> \<lfloor>(of_nat (6 + 1) * 30000 / of_nat 7 :: rat)\<rfloor> = 30000
   \<and> of_int (end_time (last (uniform_cues 30000 [''a'', ''b'', ''c'', ''d'', ''e'', ''f'', ''g''])))
       \<noteq> (30000 :: rat)
   \<and> of_int (end_time (last (uniform_cues (5001 / 2) [''a'']))) \<noteq> (5001 / 2 :: rat)"
proof -
  have a: "end_time (uniform_cues 30000 [''a'', ''b'', ''c'', ''d'', ''e'', ''f'', ''g''] ! 6)
             = 29999"
    using uniform_cues_nth [of 6 "[''a'', ''b'', ''c'', ''d'', ''e'', ''f'', ''g'']" 30000]
    by (simp add: round_30000_by_7)
  have b: "\<lfloor>(of_nat (6 + 1) * 30000 / of_nat 7 :: rat)\<rfloor> = 30000"
    by simp
  have "end_time (last (uniform_cues 30000 [''a'', ''b'', ''c'', ''d'', ''e'', ''f'', ''g'']))
          = 29999"
    using end_last_uniform_cues [of "[''a'', ''b'', ''c'', ''d'', ''e'', ''f'', ''g'']" 30000]
    by (simp add: round_30000_by_7)
  then have c: "of_int (end_time (last (uniform_cues 30000
                  [''a'', ''b'', ''c'', ''d'', ''e'', ''f'', ''g'']))) \<noteq> (30000 :: rat)"
    by simp
  have "end_time (last (uniform_cues (5001 / 2) [''a''])) = 2500"
    using end_last_uniform_cues [of "[''a'']" "5001 / 2"] round_halfway
    by simp
  then have d: "of_int (end_time (last (uniform_cues (5001 / 2) [''a''])))
                  \<noteq> (5001 / 2 :: rat)"
    by simp
  from a b c d show ?thesis by blast
qed

text \<open>
  C1, amended. For \<open>n \<ge> 1\<close> lines and a duration \<open>0 \<le> D < 2 ^ 51\<close> milliseconds there is
  one cue per line; line \<open>i\<close> (0-based) starts at \<open>\<lfloor>i \<otimes> (D \<oslash> n)\<rfloor>\<close> and ends at
  \<open>\<lfloor>(i + 1) \<otimes> (D \<oslash> n)\<rfloor>\<close>, the product and the quotient rounded to double
  precision, so each cue ends where the next one starts. The first cue starts at 0;
  every start and end is within 1 of \<open>\<lfloor>i * D / n\<rfloor>\<close> and \<open>\<lfloor>(i + 1) * D / n\<rfloor>\<close>, and the
  last cue's end is within 1 of \<open>\<lfloor>D\<rfloor>\<close>. For two lines and 4000 ms the cues are
  \<open>[0, 2000)\<close> and \<open>[2000, 4000)\<close>.
\<close>

theorem uniform_cues_bounds:
  assumes "0 \<le> D" and "D < 2 ^ 51" and "i < length lines"
  shows "length (uniform_cues D lines) = length lines
   \<and> uniform_cues D lines ! i =
       \<lparr>start_time = \<lfloor>fl (of_nat i * fl (D / of_nat (length lines)))\<rfloor>,
        end_time = \<lfloor>fl (of_nat (i + 1) * fl (D / of_nat (length lines)))\<rfloor>,
        utt_text = trim (lines ! i)\<rparr>
   \<and> start_time (uniform_cues D lines ! 0) = 0
   \<and> \<bar>start_time (uniform_cues D lines ! i) - \<lfloor>of_nat i * D / of_nat (length lines)\<rfloor>\<bar> \<le> 1
   \<and> \<bar>end_time (uniform_cues D lines ! i) - \<lfloor>of_nat (i + 1) * D / of_nat (length lines)\<rfloor>\<bar> \<le> 1
   \<and> \<bar>end_time (last (uniform_cues D lines)) - \<lfloor>D\<rfloor>\<bar> \<le> 1
   \<and> uniform_cues 4000 [''Hello'', ''World''] =
       [\<lparr>start_time = 0, end_time = 2000, utt_text = ''Hello''\<rparr>,
        \<lparr>start_time = 2000, end_time = 4000, utt_text = ''World''\<rparr>]"
proof -
  define n where "n = length lines"
  have ne: "lines \<noteq> []" using assms(3) by auto
  then have n: "0 < n" by (simp add: n_def)
  have a: "length (uniform_cues D lines) = length lines"
    by (rule length_uniform_cues)
  have b: "uniform_cues D lines ! i =
       \<lparr>start_time = \<lfloor>fl (of_nat i * fl (D / of_nat (length lines)))\<rfloor>,
        end_time = \<lfloor>fl (of_nat (i + 1) * fl (D / of_nat (length lines)))\<rfloor>,
        utt_text = trim (lines ! i)\<rparr>"
    using assms(3) by (rule uniform_cues_nth)
  have "uniform_cues D lines ! 0 =
       \<lparr>start_time = \<lfloor>fl (of_nat 0 * fl (D / of_nat (length lines)))\<rfloor>,
        end_time = \<lfloor>fl (of_nat (0 + 1) * fl (D / of_nat (length lines)))\<rfloor>,
        utt_text = trim (lines ! 0)\<rparr>"
    using n unfolding n_def by (rule uniform_cues_nth)
  then have c: "start_time (uniform_cues D lines ! 0) = 0"
    by (simp add: fl_zero)
  have i1: "i \<le> n" and i2: "i + 1 \<le> n" using assms(3) by (simp_all add: n_def)
  have "\<bar>\<lfloor>fl (of_nat i * fl (D / of_nat n))\<rfloor> - \<lfloor>of_nat i * D / of_nat n\<rfloor>\<bar> \<le> 1"
    using assms(1,2) i1 n by (rule alloc_floor)
  then have d: "\<bar>start_time (uniform_cues D lines ! i)
                  - \<lfloor>of_nat i * D / of_nat (length lines)\<rfloor>\<bar> \<le> 1"
    by (simp only: b n_def utterance.simps)
  have "\<bar>\<lfloor>fl (of_nat (i + 1) * fl (D / of_nat n))\<rfloor> - \<lfloor>of_nat (i + 1) * D / of_nat n\<rfloor>\<bar> \<le> 1"
    using assms(1,2) i2 n by (rule alloc_floor)
  then have e: "\<bar>end_time (uniform_cues D lines ! i)
                  - \<lfloor>of_nat (i + 1) * D / of_nat (length lines)\<rfloor>\<bar> \<le> 1"
    by (simp only: b n_def utterance.simps)
  have le: "end_time (last (uniform_cues D lines)) = \<lfloor>fl (of_nat n * fl (D / of_nat n))\<rfloor>"
    unfolding n_def using ne by (rule end_last_uniform_cues)
  have "\<bar>\<lfloor>fl (of_nat n * fl (D / of_nat n))\<rfloor> - \<lfloor>of_nat n * D / of_nat n\<rfloor>\<bar> \<le> 1"
    using assms(1,2) order_refl n by (rule alloc_floor)
  moreover have "(of_nat n * D / of_nat n :: rat) = D" using n by simp
  ultimately have f: "\<bar>end_time (last (uniform_cues D lines)) - \<lfloor>D\<rfloor>\<bar> \<le> 1"
    by (simp only: le)
  note g = uniform_cues_hello_world
  from a b c d e f g show ?thesis by blast
qed

theorem uniform_cues_bounds_witness:
  "(0 :: rat) \<le> 30000 \<and> (30000 :: rat) < 2 ^ 51
   \<and> 6 < length [''a'', ''b'', ''c'', ''d'', ''e'', ''f'', ''g'']
   \<and> start_time (uniform_cues 30000 [''a'', ''b'', ''c'', ''d'', ''e'', ''f'', ''g''] ! 0) = 0
   \<and> \<bar>end_time (last (uniform_cues 30000 [''a'', ''b'', ''c'', ''d'', ''e'', ''f'', ''g'']))
        - \<lfloor>30000 :: rat\<rfloor>\<bar> \<le> 1"
proof -
  have h1: "(0 :: rat) \<le> 30000" and h2: "(30000 :: rat) < 2 ^ 51"
    and h3: "6 < length [''a'', ''b'', ''c'', ''d'', ''e'', ''f'', ''g'']"
    by simp_all
  from uniform_cues_bounds [OF h1 h2 h3] h1 h2 h3 show ?thesis by blast
qed

section \<open>Quoting in the commands\<close>

lemma escape_dq_Cons:
  "escape_dq (c # cs) = (if c = CHR 0x22 then [CHR 0x5C, CHR 0x22] else [c]) @ escape_dq cs"
  by (simp add: escape_dq_def)

lemma escape_dq_hd: "escape_dq s = d # r \<Longrightarrow> d \<noteq> CHR 0x22"
  by (cases s) (auto simp: escape_dq_Cons escape_dq_def split: if_splits)

text \<open>The cover command escapes every double quote of the prompt it embeds.\<close>

lemma quotes_escaped_escape_dq: "quotes_escaped (CHR 0x22) (escape_dq s)"
proof (induction s)
  case Nil
  show ?case by (simp add: escape_dq_def)
next
  case (Cons c cs)
  show ?case
  proof (cases "c = CHR 0x22")
    case True
    with Cons show ?thesis by (simp add: escape_dq_Cons)
  next
    case False
    show ?thesis
    proof (cases "escape_dq cs")
      case Nil
      with False show ?thesis by (simp add: escape_dq_Cons)
    next
      case (Cons d r)
      then have "d \<noteq> CHR 0x22" by (rule escape_dq_hd)
      with False Cons Cons.IH show ?thesis by (simp add: escape_dq_Cons)
    qed
  qed
qed

lemma styleStr_quoted_size:
  "plan_styleStr (plan_video h now quoted_size_request) =
     ''FontName=PingFang SC,FontSize=24'' @ sq @
     '',PrimaryColour=&H00FFFFFF,OutlineColour=&H00000000,Outline=2,Shadow=0,Alignment=2,MarginV=60''"
proof -
  have c: "cssToAssColor ''#FFFFFF'' = ''&H00FFFFFF''" "cssToAssColor ''#000000'' = ''&H00000000''"
    by code_simp+
  have m: "toString 60 = ''60''" by code_simp
  show ?thesis
    by (simp add: plan_video_def quoted_size_request_def Let_def or_else_def c m sq_def)
qed

text \<open>
  C2. The composition command puts each path between quotes of its own, but it embeds the
  paths and the style string as they are. For the request with font size \<^verbatim>\<open>24'\<close> the
  style string is \<^verbatim>\<open>FontName=PingFang SC,FontSize=24',PrimaryColour=...\<close>: its single
  quote has no backslash before it, and the string stands unchanged between the single
  quotes of \<^verbatim>\<open>force_style='...'\<close>, so the quote is not escaped before being embedded.
\<close>

theorem style_quote_not_escaped:
  "plan_styleStr (plan_video h now quoted_size_request) =
     ''FontName=PingFang SC,FontSize=24'' @ sq @
     '',PrimaryColour=&H00FFFFFF,OutlineColour=&H00000000,Outline=2,Shadow=0,Alignment=2,MarginV=60''
   \<and> \<not> quotes_escaped (CHR 0x27) (plan_styleStr (plan_video h now quoted_size_request))
   \<and> plan_command (plan_video h now quoted_size_request) =
       ''ffmpeg -loop 1 -i '' @ dq @ path_join h [dirname h, ''outputs/images/c.jpg''] @ dq @
       '' -i '' @ dq @ path_join h [dirname h, ''uploads/a.mp3''] @ dq @
       '' -vf '' @ dq @
       ''scale=1080:1920:force_original_aspect_ratio=decrease,pad=1080:1920:(ow-iw)/2:(oh-ih)/2'' @
       '',subtitles='' @ sq @ path_join h [dirname h, ''outputs/a.srt''] @ sq @
       '':force_style='' @ sq @ plan_styleStr (plan_video h now quoted_size_request) @ sq @ dq @
       encode_tail @ dq @ plan_outputPath (plan_video h now quoted_size_request) @ dq"
proof -
  have a: "\<not> quotes_escaped (CHR 0x27) (plan_styleStr (plan_video h now quoted_size_request))"
    unfolding styleStr_quoted_size by (simp add: sq_def)
  have b: "plan_command (plan_video h now quoted_size_request) =
       ''ffmpeg -loop 1 -i '' @ dq @ path_join h [dirname h, ''outputs/images/c.jpg''] @ dq @
       '' -i '' @ dq @ path_join h [dirname h, ''uploads/a.mp3''] @ dq @
       '' -vf '' @ dq @
       ''scale=1080:1920:force_original_aspect_ratio=decrease,pad=1080:1920:(ow-iw)/2:(oh-ih)/2'' @
       '',subtitles='' @ sq @ path_join h [dirname h, ''outputs/a.srt''] @ sq @
       '':force_style='' @ sq @ plan_styleStr (plan_video h now quoted_size_request) @ sq @ dq @
       encode_tail @ dq @ plan_outputPath (plan_video h now quoted_size_request) @ dq"
    by (simp add: plan_video_def quoted_size_request_def Let_def truthy_def)
  from styleStr_quoted_size [of h now] a b show ?thesis by blast
qed

end
